theory Spec2Isabelle
  imports Main
begin

section \<open>Values, events and the shared context\<close>

text \<open>
  The workflow of \<^verbatim>\<open>docs/docs/examples/workflow/rag.ipynb\<close> passes Python values
  around: the keyword arguments of \<^verbatim>\<open>w.run(...)\<close>, the value kept under the key
  \<^verbatim>\<open>"query"\<close>, the result of a \<^verbatim>\<open>StopEvent\<close>. A value is \<^verbatim>\<open>None\<close>, a
  boolean, an integer, a string, a list, or an object of the library (an index, a
  response), whose type \<open>'o\<close> is left open.
\<close>

datatype 'o pyval =
    PNone
  | PBool bool
  | PInt int
  | PStr string
  | PList "'o pyval list"
  | PObj 'o

text \<open>
  Python's truth test, as \<^verbatim>\<open>if not dirname\<close> and \<^verbatim>\<open>if not query\<close> apply it:
  \<^verbatim>\<open>None\<close>, \<^verbatim>\<open>False\<close>, \<^verbatim>\<open>0\<close>, the empty string and the empty list are
  falsy. A library object defines neither \<^verbatim>\<open>__bool__\<close> nor \<^verbatim>\<open>__len__\<close> and is
  truthy.
\<close>

fun truthy :: "'o pyval \<Rightarrow> bool" where
  "truthy PNone = False"
| "truthy (PBool b) = b"
| "truthy (PInt i) = (i \<noteq> 0)"
| "truthy (PStr s) = (s \<noteq> [])"
| "truthy (PList xs) = (xs \<noteq> [])"
| "truthy (PObj x) = True"

text \<open>What a step body can raise: an exception of Python, or of a service it calls.\<close>

datatype py_error =
    AttributeError
  | TypeError
  | KeyError string
  | ServiceError string

type_synonym 'o payload = "string \<rightharpoonup> 'o pyval"

text \<open>
  The events of the notebook: the built-in \<^verbatim>\<open>StartEvent\<close> (the keyword arguments of
  \<^verbatim>\<open>run\<close>) and \<^verbatim>\<open>StopEvent\<close> (its \<^verbatim>\<open>result\<close>), and the two declared in the
  notebook, each with its one field \<^verbatim>\<open>nodes: list[NodeWithScore]\<close>. The type \<open>'n\<close>
  is \<^verbatim>\<open>NodeWithScore\<close>.
\<close>

datatype ('o, 'n) event =
    StartEvent "'o payload"
  | StopEvent "'o pyval"
  | RetrieverEvent "'n list"
  | RerankEvent "'n list"

datatype kind = KStart | KStop | KRetriever | KRerank

fun kind_of :: "('o, 'n) event \<Rightarrow> kind" where
  "kind_of (StartEvent p) = KStart"
| "kind_of (StopEvent r) = KStop"
| "kind_of (RetrieverEvent ns) = KRetriever"
| "kind_of (RerankEvent ns) = KRerank"

text \<open>
  Modelled from the spec: \<^verbatim>\<open>StartEvent.get\<close> is library code that is not part of the
  notebook. The spec gives a Start event "arbitrary caller-supplied key/value data" and
  has a step see an "absent" field; \<^verbatim>\<open>ev.get("dirname")\<close> is the read of a field,
  \<^verbatim>\<open>None\<close> when the field is absent, which is how \<^verbatim>\<open>if not dirname\<close> uses it.
\<close>

definition ev_get :: "'o payload \<Rightarrow> string \<Rightarrow> 'o pyval" where
  "ev_get p k = (case p k of None \<Rightarrow> PNone | Some v \<Rightarrow> v)"

text \<open>
  Modelled from the spec: the SharedContext (\<^verbatim>\<open>ctx.store\<close>) is library code that is
  not part of the notebook. By the spec it is "a mapping from string key to arbitrary
  value"; \<^verbatim>\<open>set(key, value)\<close> "stores a value under key, overwriting any prior value";
  \<^verbatim>\<open>get(key, default)\<close> "returns the stored value or the supplied default if absent;
  never raises for a missing key when a default is given". The default is a keyword
  argument in the notebook (\<^verbatim>\<open>default=None\<close>), so it is optional here; the spec
  fixes the result only when one is given, and the model lets the remaining case, a
  missing key and no default, be the raise that the spec's condition sets apart.
\<close>

type_synonym 'o store = "string \<rightharpoonup> 'o pyval"

definition ctx_set :: "string \<Rightarrow> 'o pyval \<Rightarrow> 'o store \<Rightarrow> 'o store" where
  "ctx_set k v m = m(k \<mapsto> v)"

text \<open>
  Modelled from the spec: \<^verbatim>\<open>get(key, default)\<close> of the SharedContext, "the stored value or
  the supplied default if absent".
\<close>

definition ctx_get :: "string \<Rightarrow> 'o pyval option \<Rightarrow> 'o store \<Rightarrow> py_error + 'o pyval" where
  "ctx_get k dflt m =
     (case m k of
        Some v \<Rightarrow> Inr v
      | None \<Rightarrow> (case dflt of Some d \<Rightarrow> Inr d | None \<Rightarrow> Inl (KeyError k)))"

text \<open>
  Modelled from the spec: concurrent use of the SharedContext, which is library code.
  The spec has set and get "linearizable per key": operations issued by concurrent
  steps take effect one at a time, in some order. A schedule is therefore a list of
  operations applied in turn.
\<close>

datatype 'o ctx_op = SetOp string "'o pyval" | GetOp string "'o pyval option"

fun op_key :: "'o ctx_op \<Rightarrow> string" where
  "op_key (SetOp k v) = k"
| "op_key (GetOp k d) = k"

fun apply_ctx_op :: "'o ctx_op \<Rightarrow> 'o store \<Rightarrow> 'o store" where
  "apply_ctx_op (SetOp k v) m = ctx_set k v m"
| "apply_ctx_op (GetOp k d) m = m"

fun apply_ctx_ops :: "'o ctx_op list \<Rightarrow> 'o store \<Rightarrow> 'o store" where
  "apply_ctx_ops [] m = m"
| "apply_ctx_ops (x # xs) m = apply_ctx_ops xs (apply_ctx_op x m)"

section \<open>The four steps of the notebook\<close>

text \<open>
  What the notebook prints, one constructor for each \<^verbatim>\<open>print\<close> call; the formatted
  value is kept, not its text.
\<close>

datatype 'o line =
    QueryLine "'o pyval"
  | IndexEmptyLine
  | RetrievedLine nat
  | ValueLine "'o pyval"
  | RerankedLine nat

text \<open>The state a step body works on: the store of the run's context, and standard output.\<close>

record 'o run_state =
  store :: "'o store"
  stdout :: "'o line list"

definition print :: "'o line \<Rightarrow> 'o run_state \<Rightarrow> 'o run_state" where
  "print l s = s\<lparr>stdout := stdout s @ [l]\<rparr>"

text \<open>
  The services behind the steps are outside the notebook and enter as parameters, each
  free to fail:
  \<^item> \<open>load_data\<close>: \<^verbatim>\<open>SimpleDirectoryReader(dirname).load_data()\<close>;
  \<^item> \<open>from_documents\<close>: \<^verbatim>\<open>VectorStoreIndex.from_documents(documents=..., embed_model=...)\<close>;
  \<^item> \<open>aretrieve\<close>: \<^verbatim>\<open>index.as_retriever(similarity_top_k=2).aretrieve(query)\<close> on an object;
  \<^item> \<open>postprocess_nodes\<close>: \<^verbatim>\<open>LLMRerank(...).postprocess_nodes(nodes, query_str=...)\<close>;
  \<^item> \<open>asynthesize\<close>: \<^verbatim>\<open>CompactAndRefine(...).asynthesize(query, nodes=...)\<close>.
  The type \<open>'d\<close> is that of the loaded documents.
\<close>

record ('o, 'd, 'n) services =
  load_data :: "'o pyval \<Rightarrow> py_error + 'd"
  from_documents :: "'d \<Rightarrow> py_error + 'o"
  aretrieve :: "'o \<Rightarrow> 'o pyval \<Rightarrow> py_error + 'n list"
  postprocess_nodes :: "'n list \<Rightarrow> 'o pyval \<Rightarrow> py_error + 'n list"
  asynthesize :: "'o pyval \<Rightarrow> 'n list \<Rightarrow> py_error + 'o"

type_synonym ('o, 'n) step_result = "py_error + (('o, 'n) event option \<times> 'o run_state)"

definition ingest ::
  "('o, 'd, 'n) services \<Rightarrow> 'o run_state \<Rightarrow> 'o payload \<Rightarrow> ('o, 'n) step_result" where
  "ingest sv s ev =
     (let dirname = ev_get ev ''dirname'' in
      if \<not> truthy dirname then Inr (None, s)
      else
        (case load_data sv dirname of
           Inl e \<Rightarrow> Inl e
         | Inr documents \<Rightarrow>
             (case from_documents sv documents of
                Inl e \<Rightarrow> Inl e
              | Inr index \<Rightarrow> Inr (Some (StopEvent (PObj index)), s))))"

text \<open>
  In \<open>retrieve\<close>, \<^verbatim>\<open>index.as_retriever\<close> is an attribute of an index: on a value
  that is not an object (a string, a number) Python raises \<^verbatim>\<open>AttributeError\<close>.
\<close>

definition retrieve ::
  "('o, 'd, 'n) services \<Rightarrow> 'o run_state \<Rightarrow> 'o payload \<Rightarrow> ('o, 'n) step_result" where
  "retrieve sv s ev =
     (let query = ev_get ev ''query'';
          index = ev_get ev ''index'' in
      if \<not> truthy query then Inr (None, s)
      else
        (let s1 = print (QueryLine query) s;
             s2 = s1\<lparr>store := ctx_set ''query'' query (store s1)\<rparr> in
         if index = PNone then Inr (None, print IndexEmptyLine s2)
         else
           (case index of
              PObj i \<Rightarrow>
                (case aretrieve sv i query of
                   Inl e \<Rightarrow> Inl e
                 | Inr nodes \<Rightarrow>
                     Inr (Some (RetrieverEvent nodes), print (RetrievedLine (length nodes)) s2))
            | _ \<Rightarrow> Inl AttributeError)))"

definition rerank ::
  "('o, 'd, 'n) services \<Rightarrow> 'o run_state \<Rightarrow> 'n list \<Rightarrow> ('o, 'n) step_result" where
  "rerank sv s nodes =
     (case ctx_get ''query'' (Some PNone) (store s) of
        Inl e \<Rightarrow> Inl e
      | Inr shown \<Rightarrow>
          (let s1 = print (ValueLine shown) s in
           case ctx_get ''query'' (Some PNone) (store s1) of
             Inl e \<Rightarrow> Inl e
           | Inr query_str \<Rightarrow>
               (case postprocess_nodes sv nodes query_str of
                  Inl e \<Rightarrow> Inl e
                | Inr new_nodes \<Rightarrow>
                    Inr (Some (RerankEvent new_nodes),
                         print (RerankedLine (length new_nodes)) s1))))"

definition synthesize ::
  "('o, 'd, 'n) services \<Rightarrow> 'o run_state \<Rightarrow> 'n list \<Rightarrow> ('o, 'n) step_result" where
  "synthesize sv s nodes =
     (case ctx_get ''query'' (Some PNone) (store s) of
        Inl e \<Rightarrow> Inl e
      | Inr query \<Rightarrow>
          (case asynthesize sv query nodes of
             Inl e \<Rightarrow> Inl e
           | Inr response \<Rightarrow> Inr (Some (StopEvent (PObj response)), s)))"

section \<open>The workflow engine\<close>

text \<open>
  Modelled from the spec: the engine (\<^verbatim>\<open>Workflow\<close>, \<^verbatim>\<open>@step\<close>, \<^verbatim>\<open>run\<close>) is library
  code that is not part of the notebook. The definitions of this section follow section
  4.2 and section 7 of the spec:
  \<^item> a step is "a tuple of (name, accepted event kind(s), declared possible output event
    kind(s) including none, the callable body)", the body of signature
    \<^verbatim>\<open>(SharedContext, Event) -> Event | None\<close>;
  \<^item> \<^verbatim>\<open>run\<close> "creates a fresh SharedContext, wraps initialPayload in a Start event",
    and keeps "a work queue of pending events, seeded with the Start event";
  \<^item> it pops an event and invokes "each step whose accepted kind matches the event's
    kind"; an invocation returns "an output event (enqueued for further dispatch)",
    "no event", or "propagates a failure", which fails the run with
    \<^verbatim>\<open>StepExecutionError\<close>;
  \<^item> "the first Stop event produced by any step terminates the run; its payload is the
    run's result", the steps not yet finished being abandoned;
  \<^item> "if the work queue empties with no Stop event produced, the run fails with
    NoTerminationError";
  \<^item> a run is \<open>Running\<close> until it is \<open>Completed\<close> or \<open>Failed\<close>, with "no transitions
    out of terminal states".
  The spec lets the steps matching one event run "thread-parallel or cooperatively
  interleaved"; the model takes the interleaving in which they run one after the other
  in the order of their declaration.
\<close>

datatype wf_error =
    GraphValidationError
  | StepExecutionError string py_error
  | NoTerminationError
  | TimeoutError

record ('o, 'n) step =
  step_name :: string
  accepts :: kind
  produces :: "kind option list"
  body :: "'o run_state \<Rightarrow> ('o, 'n) event \<Rightarrow> ('o, 'n) step_result"

datatype 'o status = Running | Completed "'o pyval" | Failed wf_error

text \<open>
  The engine's record of one invocation: the step, the event it received, the state it
  started in, and what it returned or raised.
\<close>

record ('o, 'n) invocation =
  inv_step :: string
  inv_event :: "('o, 'n) event"
  inv_state :: "'o run_state"
  inv_result :: "py_error + ('o, 'n) event option"

record ('o, 'n) config =
  status :: "'o status"
  queue :: "('o, 'n) event list"
  ctx :: "'o run_state"
  trace :: "('o, 'n) invocation list"

definition logged ::
  "('o, 'n) step \<Rightarrow> ('o, 'n) event \<Rightarrow> 'o run_state \<Rightarrow> py_error + ('o, 'n) event option \<Rightarrow>
   ('o, 'n) invocation" where
  "logged st ev s r = \<lparr>inv_step = step_name st, inv_event = ev, inv_state = s, inv_result = r\<rparr>"

text \<open>
  Modelled from the spec: one round of the engine on the steps matching an event. A
  failure ends the run, a Stop event completes it at once, any other event joins the
  queue, and "no event" passes to the next step.
\<close>

fun invoke_all :: "('o, 'n) step list \<Rightarrow> ('o, 'n) event \<Rightarrow> ('o, 'n) config \<Rightarrow> ('o, 'n) config" where
  "invoke_all [] ev c = c"
| "invoke_all (st # sts) ev c =
     (case body st (ctx c) ev of
        Inl e \<Rightarrow>
          c\<lparr>status := Failed (StepExecutionError (step_name st) e),
            trace := trace c @ [logged st ev (ctx c) (Inl e)]\<rparr>
      | Inr (out, s') \<Rightarrow>
          (let c' = c\<lparr>ctx := s', trace := trace c @ [logged st ev (ctx c) (Inr out)]\<rparr> in
           case out of
             None \<Rightarrow> invoke_all sts ev c'
           | Some (StopEvent r) \<Rightarrow> c'\<lparr>status := Completed r\<rparr>
           | Some produced \<Rightarrow> invoke_all sts ev (c'\<lparr>queue := queue c' @ [produced]\<rparr>)))"

text \<open>
  Modelled from the spec: the steps "whose accepted kind matches the event's kind", and
  the round that pops the next event; an empty queue is the spec's
  \<^verbatim>\<open>NoTerminationError\<close>.
\<close>

definition matching :: "('o, 'n) step list \<Rightarrow> ('o, 'n) event \<Rightarrow> ('o, 'n) step list" where
  "matching steps ev = filter (\<lambda>st. accepts st = kind_of ev) steps"

definition dispatch :: "('o, 'n) step list \<Rightarrow> ('o, 'n) config \<Rightarrow> ('o, 'n) config" where
  "dispatch steps c =
     (case queue c of
        [] \<Rightarrow> c\<lparr>status := Failed NoTerminationError\<rparr>
      | ev # rest \<Rightarrow> invoke_all (matching steps ev) ev (c\<lparr>queue := rest\<rparr>))"

text \<open>
  Modelled from the spec: the loop of \<^verbatim>\<open>run\<close>, bounded by a number of rounds, since a
  step graph with a cycle may never stop: after \<open>n\<close> rounds the run is still \<open>Running\<close>,
  or has ended. A run starts with a fresh context and the Start event in its queue.
\<close>

fun drive :: "nat \<Rightarrow> ('o, 'n) step list \<Rightarrow> ('o, 'n) config \<Rightarrow> ('o, 'n) config" where
  "drive 0 steps c = c"
| "drive (Suc n) steps c =
     (case status c of
        Running \<Rightarrow> drive n steps (dispatch steps c)
      | _ \<Rightarrow> c)"

definition fresh :: "'o run_state" where
  "fresh = \<lparr>store = Map.empty, stdout = []\<rparr>"

definition start :: "'o payload \<Rightarrow> ('o, 'n) config" where
  "start p = \<lparr>status = Running, queue = [StartEvent p], ctx = fresh, trace = []\<rparr>"

definition run :: "nat \<Rightarrow> ('o, 'n) step list \<Rightarrow> 'o payload \<Rightarrow> ('o, 'n) config" where
  "run n steps p = drive n steps (start p)"

section \<open>The workflow of the notebook\<close>

text \<open>
  \<^verbatim>\<open>class RAGWorkflow(Workflow)\<close>: the four \<^verbatim>\<open>@step\<close> methods in the order of their
  declaration, each with the event type of its \<^verbatim>\<open>ev\<close> parameter and the kinds of its
  return annotation. The engine hands a body only events of the kind it accepts; the
  last case of each body is there because a HOL function is total.
\<close>

definition ingest_step :: "('o, 'd, 'n) services \<Rightarrow> ('o, 'n) step" where
  "ingest_step sv =
     \<lparr>step_name = ''ingest'', accepts = KStart, produces = [Some KStop, None],
      body = (\<lambda>s ev. case ev of StartEvent p \<Rightarrow> ingest sv s p | _ \<Rightarrow> Inl TypeError)\<rparr>"

definition retrieve_step :: "('o, 'd, 'n) services \<Rightarrow> ('o, 'n) step" where
  "retrieve_step sv =
     \<lparr>step_name = ''retrieve'', accepts = KStart, produces = [Some KRetriever, None],
      body = (\<lambda>s ev. case ev of StartEvent p \<Rightarrow> retrieve sv s p | _ \<Rightarrow> Inl TypeError)\<rparr>"

definition rerank_step :: "('o, 'd, 'n) services \<Rightarrow> ('o, 'n) step" where
  "rerank_step sv =
     \<lparr>step_name = ''rerank'', accepts = KRetriever, produces = [Some KRerank],
      body = (\<lambda>s ev. case ev of RetrieverEvent nodes \<Rightarrow> rerank sv s nodes | _ \<Rightarrow> Inl TypeError)\<rparr>"

definition synthesize_step :: "('o, 'd, 'n) services \<Rightarrow> ('o, 'n) step" where
  "synthesize_step sv =
     \<lparr>step_name = ''synthesize'', accepts = KRerank, produces = [Some KStop],
      body = (\<lambda>s ev. case ev of RerankEvent nodes \<Rightarrow> synthesize sv s nodes | _ \<Rightarrow> Inl TypeError)\<rparr>"

definition RAGWorkflow :: "('o, 'd, 'n) services \<Rightarrow> ('o, 'n) step list" where
  "RAGWorkflow sv = [ingest_step sv, retrieve_step sv, rerank_step sv, synthesize_step sv]"

text \<open>
  Services to run the workflow on: documents are the names read, an object is a number
  (the index built from \<open>k\<close> documents is \<open>k\<close>, a response over \<open>k\<close> nodes is \<open>k\<close>), a
  node is a string.
\<close>

definition demo_services :: "(nat, string list, string) services" where
  "demo_services =
     \<lparr>load_data = (\<lambda>d. case d of PStr name \<Rightarrow> Inr [name] | _ \<Rightarrow> Inl TypeError),
      from_documents = (\<lambda>docs. Inr (length docs)),
      aretrieve = (\<lambda>i q. Inr [''chunk a'', ''chunk b'']),
      postprocess_nodes = (\<lambda>nodes q. Inr (rev nodes)),
      asynthesize = (\<lambda>q nodes. Inr (length nodes))\<rparr>"

text \<open>
  Modelled from the spec: the response object and \<^verbatim>\<open>async_response_gen\<close> are library
  code that is not part of the notebook, whose last cell prints the result of the query
  run with \<^verbatim>\<open>async for chunk in result.async_response_gen()\<close>. By the spec a response
  is "delivered as a lazy sequence of text fragments", finite and not restartable. An
  object of the library is here an index over the documents it was built from, or a
  response with the fragments it yields; on any other value the attribute is missing.
\<close>

datatype lib_obj = VectorStoreIndex "string list" | StreamingResponse "string list"

definition async_response_gen :: "lib_obj pyval \<Rightarrow> py_error + string list" where
  "async_response_gen result =
     (case result of
        PObj (StreamingResponse chunks) \<Rightarrow> Inr chunks
      | _ \<Rightarrow> Inl AttributeError)"

text \<open>
  Services over these objects whose synthesizer succeeds with a response that yields no
  fragment: a node is a document, the index retrieves its first two (\<^verbatim>\<open>similarity_top_k=2\<close>),
  and the reranker keeps what it is given.
\<close>

definition quiet_services :: "(lib_obj, string list, string) services" where
  "quiet_services =
     \<lparr>load_data = (\<lambda>d. case d of PStr name \<Rightarrow> Inr [name] | _ \<Rightarrow> Inl TypeError),
      from_documents = (\<lambda>docs. Inr (VectorStoreIndex docs)),
      aretrieve = (\<lambda>i q. case i of VectorStoreIndex docs \<Rightarrow> Inr (take 2 docs)
                                   | _ \<Rightarrow> Inl AttributeError),
      postprocess_nodes = (\<lambda>nodes q. Inr nodes),
      asynthesize = (\<lambda>q nodes. Inr (StreamingResponse []))\<rparr>"

section \<open>Predicates on the record of a run\<close>

text \<open>
  An invocation \<open>stops\<close> with \<open>r\<close> when the step returned \<^verbatim>\<open>StopEvent(result=r)\<close>. The
  engine keeps this shape of its record: while a run is \<open>Running\<close>, or after it \<open>Failed\<close>,
  no invocation has stopped; once it is \<open>Completed\<close> with \<open>r\<close>, the last invocation
  stopped with \<open>r\<close> and none before it stopped.
\<close>

definition stops :: "('o, 'n) invocation \<Rightarrow> 'o pyval \<Rightarrow> bool" where
  "stops x r = (inv_result x = Inr (Some (StopEvent r)))"

definition stop_free :: "('o, 'n) invocation list \<Rightarrow> bool" where
  "stop_free tr = (\<forall>x \<in> set tr. \<forall>r. \<not> stops x r)"

definition stop_inv :: "('o, 'n) config \<Rightarrow> bool" where
  "stop_inv c =
     (case status c of
        Completed r \<Rightarrow> trace c \<noteq> [] \<and> stops (last (trace c)) r \<and> stop_free (butlast (trace c))
      | _ \<Rightarrow> stop_free (trace c))"

text \<open>
  An invocation in the record is \<open>returned\<close> by a step when it carries the step's name,
  an event of the kind the step accepts, and what the body gave on that event in that
  state; a record is \<open>traced\<close> when each of its invocations is returned by a declared step.
\<close>

definition returned :: "('o, 'n) step \<Rightarrow> ('o, 'n) invocation \<Rightarrow> bool" where
  "returned st x =
     (inv_step x = step_name st \<and> accepts st = kind_of (inv_event x) \<and>
      inv_result x = map_sum id fst (body st (inv_state x) (inv_event x)))"

definition traced :: "('o, 'n) step list \<Rightarrow> ('o, 'n) invocation list \<Rightarrow> bool" where
  "traced steps tr = (\<forall>x \<in> set tr. \<exists>st \<in> set steps. returned st x)"

text \<open>
  The keyword arguments of the two \<^verbatim>\<open>w.run(...)\<close> cells of the notebook, the index
  being the object that \<open>demo_services\<close> builds from one document.
\<close>

definition ingest_kwargs :: "nat payload" where
  "ingest_kwargs = [''dirname'' \<mapsto> PStr ''data'']"

definition query_kwargs :: "nat payload" where
  "query_kwargs = [''query'' \<mapsto> PStr ''How was Llama2 trained?'', ''index'' \<mapsto> PObj 1]"

section \<open>The shared context\<close>

lemma apply_ctx_ops_other_keys:
  "\<forall>x \<in> set ops. op_key x \<noteq> k \<Longrightarrow> apply_ctx_ops ops m k = m k"
proof (induction ops arbitrary: m)
  case Nil
  show ?case by simp
next
  case (Cons x xs)
  have "apply_ctx_op x m k = m k"
    using Cons.prems by (cases x) (auto simp add: ctx_set_def)
  moreover have "apply_ctx_ops xs (apply_ctx_op x m) k = apply_ctx_op x m k"
    using Cons.prems by (intro Cons.IH) simp
  ultimately show ?case by simp
qed

text \<open>
  C5. For every key \<open>k\<close>, value \<open>v\<close> and default \<open>d\<close>, \<open>set(k, v)\<close> followed by
  \<open>get(k, d)\<close> returns \<open>v\<close>, whatever operations on other keys (sets or gets, in any
  number and order) take effect between the two.
\<close>

theorem set_then_get:
  assumes "\<forall>x \<in> set ops. op_key x \<noteq> k"
  shows "ctx_get k (Some d) (apply_ctx_ops ops (ctx_set k v m)) = Inr v"
proof -
  have "apply_ctx_ops ops (ctx_set k v m) k = ctx_set k v m k"
    using assms by (rule apply_ctx_ops_other_keys)
  then show ?thesis by (simp add: ctx_get_def ctx_set_def)
qed

theorem set_then_get_witness:
  "ctx_get ''query'' (Some PNone)
     (apply_ctx_ops [SetOp ''index'' (PInt 1), GetOp ''top_k'' None, SetOp ''index'' PNone]
        (ctx_set ''query'' (PStr ''q'') [''query'' \<mapsto> (PStr ''old'' :: nat pyval)]))
   = Inr (PStr ''q'')"
  using set_then_get [of "[SetOp ''index'' (PInt 1), GetOp ''top_k'' None, SetOp ''index'' PNone]"
      "''query''" PNone "PStr ''q''" "[''query'' \<mapsto> (PStr ''old'' :: nat pyval)]"]
  by simp

text \<open>
  C6. For every key and default, \<open>get(key, default)\<close> returns the stored value when the
  key is present and the default when it is absent; with a default it never raises.
\<close>

theorem get_with_default:
  "(m k = Some v \<longrightarrow> ctx_get k (Some d) m = Inr v) \<and>
   (m k = None \<longrightarrow> ctx_get k (Some d) m = Inr d) \<and>
   (\<forall>e. ctx_get k (Some d) m \<noteq> Inl e)"
  by (simp add: ctx_get_def split: option.split)

theorem get_with_default_witness:
  "ctx_get ''query'' (Some PNone) [''query'' \<mapsto> (PStr ''q'' :: nat pyval)] = Inr (PStr ''q'') \<and>
   ctx_get ''top_k'' (Some (PInt 2)) [''query'' \<mapsto> (PStr ''q'' :: nat pyval)] = Inr (PInt 2)"
  using get_with_default [of "[''query'' \<mapsto> (PStr ''q'' :: nat pyval)]" "''query''" "PStr ''q''" PNone]
        get_with_default [of "[''query'' \<mapsto> (PStr ''q'' :: nat pyval)]" "''top_k''" "PStr ''q''" "PInt 2"]
  by simp

section \<open>Entry steps select themselves\<close>

text \<open>
  C3. A step that accepts a Start event returns no event, and does not fail, when its
  field is absent or falsy: \<open>ingest\<close> for \<^verbatim>\<open>dirname\<close>, \<open>retrieve\<close> for \<^verbatim>\<open>query\<close>.
  Neither touches the context or prints on that path.
\<close>

theorem entry_steps_return_none:
  "(\<not> truthy (ev_get ev ''dirname'') \<longrightarrow> ingest sv s ev = Inr (None, s)) \<and>
   (\<not> truthy (ev_get ev ''query'') \<longrightarrow> retrieve sv s ev = Inr (None, s))"
  by (simp add: ingest_def retrieve_def)

theorem entry_steps_return_none_witness:
  "ingest demo_services fresh [''query'' \<mapsto> PStr ''q''] = Inr (None, fresh) \<and>
   retrieve demo_services fresh [''query'' \<mapsto> PStr []] = Inr (None, fresh)"
  using entry_steps_return_none [of "[''query'' \<mapsto> PStr ''q'']" demo_services fresh]
        entry_steps_return_none [of "[''query'' \<mapsto> PStr []]" demo_services fresh]
  by (simp add: ev_get_def)

section \<open>The engine: rounds, and what the record of a run keeps\<close>

lemma drive_terminal: "status c \<noteq> Running \<Longrightarrow> drive n steps c = c"
  by (cases n) (auto split: status.splits)

lemma drive_running: "status c = Running \<Longrightarrow> drive (Suc n) steps c = drive n steps (dispatch steps c)"
  by simp

lemma drive_add: "drive (n + m) steps c = drive m steps (drive n steps c)"
proof (induction n arbitrary: c)
  case 0
  show ?case by simp
next
  case (Suc n)
  show ?case
  proof (cases "status c = Running")
    case True
    then show ?thesis using Suc.IH by simp
  next
    case False
    then show ?thesis by (simp add: drive_terminal del: drive.simps)
  qed
qed

lemma stop_free_snoc: "stop_free (tr @ [x]) = (stop_free tr \<and> (\<forall>r. \<not> stops x r))"
  by (auto simp: stop_free_def)

lemma invoke_all_stop_inv:
  "status c = Running \<Longrightarrow> stop_free (trace c) \<Longrightarrow> stop_inv (invoke_all sts ev c)"
proof (induction sts arbitrary: c)
  case Nil
  then show ?case by (simp add: stop_inv_def)
next
  case (Cons st sts)
  show ?case
  proof (cases "body st (ctx c) ev")
    case (Inl e)
    then show ?thesis using Cons.prems
      by (simp add: stop_inv_def stop_free_snoc stops_def logged_def)
  next
    case (Inr res)
    obtain out s' where res: "res = (out, s')" by (cases res)
    show ?thesis
    proof (cases out)
      case None
      have "stop_inv (invoke_all sts ev
          (c\<lparr>ctx := s', trace := trace c @ [logged st ev (ctx c) (Inr None)]\<rparr>))"
        using Cons.prems by (intro Cons.IH) (simp_all add: stop_free_snoc stops_def logged_def)
      then show ?thesis using Inr res None by simp
    next
      case (Some produced)
      show ?thesis
      proof (cases "\<exists>r. produced = StopEvent r")
        case True
        then obtain r where "produced = StopEvent r" ..
        then show ?thesis using Inr res Some Cons.prems
          by (simp add: stop_inv_def stops_def logged_def)
      next
        case False
        have "stop_inv (invoke_all sts ev
            (c\<lparr>ctx := s', trace := trace c @ [logged st ev (ctx c) (Inr (Some produced))],
               queue := queue c @ [produced]\<rparr>))"
          using Cons.prems False
          by (intro Cons.IH) (auto simp add: stop_free_snoc stops_def logged_def)
        then show ?thesis using Inr res Some False
          by (cases produced) simp_all
      qed
    qed
  qed
qed

lemma dispatch_stop_inv:
  assumes "status c = Running" and "stop_inv c"
  shows "stop_inv (dispatch steps c)"
proof (cases "queue c")
  case Nil
  then show ?thesis using assms by (simp add: dispatch_def stop_inv_def)
next
  case (Cons ev rest)
  have "stop_inv (invoke_all (matching steps ev) ev (c\<lparr>queue := rest\<rparr>))"
    using assms by (intro invoke_all_stop_inv) (simp_all add: stop_inv_def)
  then show ?thesis using Cons by (simp add: dispatch_def)
qed

lemma drive_stop_inv: "stop_inv c \<Longrightarrow> stop_inv (drive n steps c)"
proof (induction n arbitrary: c)
  case 0
  then show ?case by simp
next
  case (Suc n)
  show ?case
  proof (cases "status c = Running")
    case True
    then show ?thesis using Suc.prems by (simp add: Suc.IH dispatch_stop_inv)
  next
    case False
    then show ?thesis using Suc.prems by (simp add: drive_terminal del: drive.simps)
  qed
qed

lemma run_stop_inv: "stop_inv (run n steps p)"
  unfolding run_def by (rule drive_stop_inv) (simp add: stop_inv_def start_def stop_free_def)

lemma stop_inv_position:
  assumes "stop_inv c" and "i < length (trace c)" and "stops (trace c ! i) r"
  shows "status c = Completed r \<and> Suc i = length (trace c)"
proof (cases "status c")
  case Running
  then have "stop_free (trace c)" using assms(1) by (simp add: stop_inv_def)
  then show ?thesis using assms(2,3) by (auto simp: stop_free_def)
next
  case (Failed e)
  then have "stop_free (trace c)" using assms(1) by (simp add: stop_inv_def)
  then show ?thesis using assms(2,3) by (auto simp: stop_free_def)
next
  case (Completed r')
  then have ne: "trace c \<noteq> []" and l: "stops (last (trace c)) r'"
    and b: "stop_free (butlast (trace c))"
    using assms(1) by (simp_all add: stop_inv_def)
  have "\<not> i < length (trace c) - 1"
  proof
    assume "i < length (trace c) - 1"
    then have "butlast (trace c) ! i \<in> set (butlast (trace c))" by simp
    moreover have "butlast (trace c) ! i = trace c ! i"
      using \<open>i < length (trace c) - 1\<close> by (simp add: nth_butlast)
    ultimately show False using b assms(3) by (auto simp: stop_free_def)
  qed
  then have i: "Suc i = length (trace c)" using assms(2) by simp
  then have "i = length (trace c) - 1" by simp
  then have "trace c ! i = last (trace c)" using ne by (simp add: last_conv_nth)
  then have "r = r'" using l assms(3) by (simp add: stops_def)
  then show ?thesis using Completed i by simp
qed

lemma invoke_all_trace: "\<exists>tr. trace (invoke_all sts ev c) = trace c @ tr"
proof (induction sts arbitrary: c)
  case Nil
  show ?case by simp
next
  case (Cons st sts)
  show ?case
  proof (cases "body st (ctx c) ev")
    case (Inl e)
    then show ?thesis by simp
  next
    case (Inr res)
    obtain out s' where res: "res = (out, s')" by (cases res)
    show ?thesis
    proof (cases out)
      case None
      then show ?thesis
        using Inr res
          Cons.IH [of "c\<lparr>ctx := s', trace := trace c @ [logged st ev (ctx c) (Inr None)]\<rparr>"]
        by auto
    next
      case (Some produced)
      then show ?thesis
        using Inr res
          Cons.IH [of "c\<lparr>ctx := s', trace := trace c @ [logged st ev (ctx c) (Inr (Some produced))],
               queue := queue c @ [produced]\<rparr>"]
        by (cases produced) auto
    qed
  qed
qed

lemma dispatch_trace: "\<exists>tr. trace (dispatch steps c) = trace c @ tr"
proof (cases "queue c")
  case Nil
  then show ?thesis by (simp add: dispatch_def)
next
  case (Cons ev rest)
  then show ?thesis
    using invoke_all_trace [of "matching steps ev" ev "c\<lparr>queue := rest\<rparr>"]
    by (simp add: dispatch_def)
qed

lemma drive_trace: "\<exists>tr. trace (drive n steps c) = trace c @ tr"
proof (induction n arbitrary: c)
  case 0
  show ?case by simp
next
  case (Suc n)
  show ?case
  proof (cases "status c = Running")
    case True
    obtain tr1 where "trace (dispatch steps c) = trace c @ tr1"
      using dispatch_trace by blast
    moreover obtain tr2 where
      "trace (drive n steps (dispatch steps c)) = trace (dispatch steps c) @ tr2"
      using Suc.IH by blast
    ultimately show ?thesis using True by simp
  next
    case False
    then show ?thesis by (simp add: drive_terminal del: drive.simps)
  qed
qed

lemma run_trace_prefix:
  "take (length (trace (run n steps p))) (trace (run (n + m) steps p)) = trace (run n steps p)"
proof -
  obtain tr where "trace (drive m steps (run n steps p)) = trace (run n steps p) @ tr"
    using drive_trace by blast
  then show ?thesis by (simp add: run_def drive_add)
qed


lemma invoke_single_trace:
  "trace (invoke_all [st] ev c) =
     trace c @ [logged st ev (ctx c) (map_sum id fst (body st (ctx c) ev))]"
proof (cases "body st (ctx c) ev")
  case (Inl e)
  then show ?thesis by simp
next
  case (Inr res)
  obtain out s' where res: "res = (out, s')" by (cases res)
  show ?thesis
  proof (cases out)
    case None
    then show ?thesis using Inr res by simp
  next
    case (Some produced)
    then show ?thesis using Inr res by (cases produced) simp_all
  qed
qed

lemma traced_snoc:
  "traced steps tr \<Longrightarrow> st \<in> set steps \<Longrightarrow> accepts st = kind_of ev \<Longrightarrow>
   traced steps (tr @ [logged st ev s (map_sum id fst (body st s ev))])"
  by (auto simp: traced_def returned_def logged_def)

lemma invoke_all_traced:
  "\<forall>st \<in> set sts. st \<in> set steps \<and> accepts st = kind_of ev \<Longrightarrow>
   traced steps (trace c) \<Longrightarrow> traced steps (trace (invoke_all sts ev c))"
proof (induction sts arbitrary: c)
  case Nil
  then show ?case by simp
next
  case (Cons st sts)
  have st: "st \<in> set steps" "accepts st = kind_of ev" using Cons.prems(1) by simp_all
  have rest: "\<forall>st \<in> set sts. st \<in> set steps \<and> accepts st = kind_of ev"
    using Cons.prems(1) by simp
  show ?case
  proof (cases "body st (ctx c) ev")
    case (Inl e)
    then show ?thesis using traced_snoc [OF Cons.prems(2) st, of "ctx c"] by simp
  next
    case (Inr res)
    obtain out s' where res: "res = (out, s')" by (cases res)
    have t: "traced steps (trace c @ [logged st ev (ctx c) (Inr out)])"
      using traced_snoc [OF Cons.prems(2) st, of "ctx c"] Inr res by simp
    show ?thesis
    proof (cases out)
      case None
      then show ?thesis
        using Inr res t
          Cons.IH [OF rest, of "c\<lparr>ctx := s', trace := trace c @ [logged st ev (ctx c) (Inr None)]\<rparr>"]
        by simp
    next
      case (Some produced)
      then show ?thesis
        using Inr res t
          Cons.IH [OF rest, of "c\<lparr>ctx := s',
               trace := trace c @ [logged st ev (ctx c) (Inr (Some produced))],
               queue := queue c @ [produced]\<rparr>"]
        by (cases produced) simp_all
    qed
  qed
qed

lemma dispatch_traced: "traced steps (trace c) \<Longrightarrow> traced steps (trace (dispatch steps c))"
proof (cases "queue c")
  case Nil
  then show "traced steps (trace c) \<Longrightarrow> ?thesis" by (simp add: dispatch_def)
next
  case (Cons ev rest)
  assume "traced steps (trace c)"
  then have "traced steps (trace (invoke_all (matching steps ev) ev (c\<lparr>queue := rest\<rparr>)))"
    by (intro invoke_all_traced) (simp_all add: matching_def)
  then show ?thesis using Cons by (simp add: dispatch_def)
qed

lemma drive_traced: "traced steps (trace c) \<Longrightarrow> traced steps (trace (drive n steps c))"
proof (induction n arbitrary: c)
  case 0
  then show ?case by simp
next
  case (Suc n)
  show ?case
  proof (cases "status c = Running")
    case True
    then show ?thesis using Suc.prems by (simp add: Suc.IH dispatch_traced)
  next
    case False
    then show ?thesis using Suc.prems by (simp add: drive_terminal del: drive.simps)
  qed
qed

lemma run_traced: "traced steps (trace (run n steps p))"
  unfolding run_def by (rule drive_traced) (simp add: traced_def start_def)

section \<open>The steps and the rounds of the workflow\<close>

lemma matching_start:
  "matching (RAGWorkflow sv) (StartEvent p) = [ingest_step sv, retrieve_step sv]"
  by (simp add: matching_def RAGWorkflow_def ingest_step_def retrieve_step_def rerank_step_def
      synthesize_step_def)

lemma matching_retriever:
  "matching (RAGWorkflow sv) (RetrieverEvent ns) = [rerank_step sv]"
  by (simp add: matching_def RAGWorkflow_def ingest_step_def retrieve_step_def rerank_step_def
      synthesize_step_def)

lemma matching_rerank:
  "matching (RAGWorkflow sv) (RerankEvent ns) = [synthesize_step sv]"
  by (simp add: matching_def RAGWorkflow_def ingest_step_def retrieve_step_def rerank_step_def
      synthesize_step_def)

lemmas matching_RAG = matching_start matching_retriever matching_rerank

lemma step_bodies:
  "body (ingest_step sv) s (StartEvent p) = ingest sv s p"
  "body (retrieve_step sv) s (StartEvent p) = retrieve sv s p"
  "body (rerank_step sv) s (RetrieverEvent ns) = rerank sv s ns"
  "body (synthesize_step sv) s (RerankEvent ns) = synthesize sv s ns"
  by (simp_all add: ingest_step_def retrieve_step_def rerank_step_def synthesize_step_def)

lemma step_names:
  "step_name (ingest_step sv) = ''ingest''"
  "step_name (retrieve_step sv) = ''retrieve''"
  "step_name (rerank_step sv) = ''rerank''"
  "step_name (synthesize_step sv) = ''synthesize''"
  by (simp_all add: ingest_step_def retrieve_step_def rerank_step_def synthesize_step_def)

lemmas RAG_simps = matching_RAG step_bodies step_names dispatch_def logged_def

text \<open>The three outcomes of \<open>ingest\<close>, and the paths of the other steps.\<close>

lemma ingest_outcomes:
  "ingest sv s p = Inr (None, s) \<and> \<not> truthy (ev_get p ''dirname'') \<or>
   (\<exists>e. ingest sv s p = Inl e) \<and> truthy (ev_get p ''dirname'') \<or>
   (\<exists>idx. ingest sv s p = Inr (Some (StopEvent (PObj idx)), s)) \<and> truthy (ev_get p ''dirname'')"
  by (simp add: ingest_def Let_def split: sum.split)

lemma ingest_stop:
  assumes "truthy (ev_get p ''dirname'')"
    and "load_data sv (ev_get p ''dirname'') = Inr docs"
    and "from_documents sv docs = Inr idx"
  shows "ingest sv s p = Inr (Some (StopEvent (PObj idx)), s)"
  using assms by (simp add: ingest_def Let_def)

lemma ingest_none: "\<not> truthy (ev_get p ''dirname'') \<Longrightarrow> ingest sv s p = Inr (None, s)"
  by (simp add: ingest_def Let_def)

lemma retrieve_none: "\<not> truthy (ev_get p ''query'') \<Longrightarrow> retrieve sv s p = Inr (None, s)"
  by (simp add: retrieve_def Let_def)

lemma retrieve_no_index:
  assumes "truthy (ev_get p ''query'')" and "ev_get p ''index'' = PNone"
  shows "retrieve sv s p =
    Inr (None, \<lparr>store = (store s)(''query'' \<mapsto> ev_get p ''query''),
               stdout = stdout s @ [QueryLine (ev_get p ''query''), IndexEmptyLine]\<rparr>)"
  using assms by (simp add: retrieve_def Let_def print_def ctx_set_def)

lemma retrieve_nodes:
  assumes "truthy (ev_get p ''query'')" and "ev_get p ''index'' = PObj i"
    and "aretrieve sv i (ev_get p ''query'') = Inr nodes"
  shows "retrieve sv s p =
    Inr (Some (RetrieverEvent nodes),
         \<lparr>store = (store s)(''query'' \<mapsto> ev_get p ''query''),
          stdout = stdout s @ [QueryLine (ev_get p ''query''), RetrievedLine (length nodes)]\<rparr>)"
  using assms by (simp add: retrieve_def Let_def print_def ctx_set_def)

lemma rerank_stored:
  assumes "store s ''query'' = Some q" and "postprocess_nodes sv nodes q = Inr new_nodes"
  shows "rerank sv s nodes =
    Inr (Some (RerankEvent new_nodes),
         s\<lparr>stdout := stdout s @ [ValueLine q, RerankedLine (length new_nodes)]\<rparr>)"
  using assms by (simp add: rerank_def print_def ctx_get_def)

lemma synthesize_stored:
  assumes "store s ''query'' = Some q" and "asynthesize sv q nodes = Inr resp"
  shows "synthesize sv s nodes = Inr (Some (StopEvent (PObj resp)), s)"
  using assms by (simp add: synthesize_def ctx_get_def)

lemma run_ingest_stop:
  assumes "ingest sv fresh p = Inr (Some (StopEvent r), s')"
  shows "run (Suc n) (RAGWorkflow sv) p =
    \<lparr>status = Completed r, queue = [], ctx = s',
     trace = [\<lparr>inv_step = ''ingest'', inv_event = StartEvent p, inv_state = fresh,
               inv_result = Inr (Some (StopEvent r))\<rparr>]\<rparr>"
  using assms by (simp add: run_def start_def RAG_simps drive_terminal)

lemma run_ingest_fail:
  assumes "ingest sv fresh p = Inl e"
  shows "run (Suc n) (RAGWorkflow sv) p =
    \<lparr>status = Failed (StepExecutionError ''ingest'' e), queue = [], ctx = fresh,
     trace = [\<lparr>inv_step = ''ingest'', inv_event = StartEvent p, inv_state = fresh,
               inv_result = Inl e\<rparr>]\<rparr>"
  using assms by (simp add: run_def start_def RAG_simps drive_terminal)

lemma run_entry_none:
  assumes "ingest sv fresh p = Inr (None, fresh)" and "retrieve sv fresh p = Inr (None, s')"
  shows "run (Suc 0) (RAGWorkflow sv) p =
    \<lparr>status = Running, queue = [], ctx = s',
     trace = [\<lparr>inv_step = ''ingest'', inv_event = StartEvent p, inv_state = fresh,
               inv_result = Inr None\<rparr>,
              \<lparr>inv_step = ''retrieve'', inv_event = StartEvent p, inv_state = fresh,
               inv_result = Inr None\<rparr>]\<rparr>"
    and "run (Suc (Suc n)) (RAGWorkflow sv) p =
    \<lparr>status = Failed NoTerminationError, queue = [], ctx = s',
     trace = [\<lparr>inv_step = ''ingest'', inv_event = StartEvent p, inv_state = fresh,
               inv_result = Inr None\<rparr>,
              \<lparr>inv_step = ''retrieve'', inv_event = StartEvent p, inv_state = fresh,
               inv_result = Inr None\<rparr>]\<rparr>"
  using assms by (simp_all add: run_def start_def RAG_simps drive_terminal)


lemma run_query:
  assumes "\<not> truthy (ev_get p ''dirname'')"
    and "truthy (ev_get p ''query'')"
    and "ev_get p ''index'' = PObj i"
    and "aretrieve sv i (ev_get p ''query'') = Inr nodes"
    and "postprocess_nodes sv nodes (ev_get p ''query'') = Inr new_nodes"
    and "asynthesize sv (ev_get p ''query'') new_nodes = Inr resp"
  shows "run (Suc (Suc (Suc n))) (RAGWorkflow sv) p =
    \<lparr>status = Completed (PObj resp), queue = [],
     ctx = \<lparr>store = [''query'' \<mapsto> ev_get p ''query''],
            stdout = [QueryLine (ev_get p ''query''), RetrievedLine (length nodes),
                      ValueLine (ev_get p ''query''), RerankedLine (length new_nodes)]\<rparr>,
     trace =
       [\<lparr>inv_step = ''ingest'', inv_event = StartEvent p, inv_state = fresh,
         inv_result = Inr None\<rparr>,
        \<lparr>inv_step = ''retrieve'', inv_event = StartEvent p, inv_state = fresh,
         inv_result = Inr (Some (RetrieverEvent nodes))\<rparr>,
        \<lparr>inv_step = ''rerank'', inv_event = RetrieverEvent nodes,
         inv_state = \<lparr>store = [''query'' \<mapsto> ev_get p ''query''],
                      stdout = [QueryLine (ev_get p ''query''), RetrievedLine (length nodes)]\<rparr>,
         inv_result = Inr (Some (RerankEvent new_nodes))\<rparr>,
        \<lparr>inv_step = ''synthesize'', inv_event = RerankEvent new_nodes,
         inv_state = \<lparr>store = [''query'' \<mapsto> ev_get p ''query''],
                      stdout = [QueryLine (ev_get p ''query''), RetrievedLine (length nodes),
                                ValueLine (ev_get p ''query''), RerankedLine (length new_nodes)]\<rparr>,
         inv_result = Inr (Some (StopEvent (PObj resp)))\<rparr>]\<rparr>"
proof -
  let ?q = "ev_get p ''query''"
  let ?s1 = "\<lparr>store = [''query'' \<mapsto> ?q],
              stdout = [QueryLine ?q, RetrievedLine (length nodes)]\<rparr>"
  have i: "ingest sv fresh p = Inr (None, fresh)"
    using assms(1) by (rule ingest_none)
  have r: "retrieve sv fresh p = Inr (Some (RetrieverEvent nodes), ?s1)"
    using retrieve_nodes [OF assms(2,3,4), of fresh] by (simp add: fresh_def)
  have k: "rerank sv ?s1 nodes =
      Inr (Some (RerankEvent new_nodes),
           ?s1\<lparr>stdout := stdout ?s1 @ [ValueLine ?q, RerankedLine (length new_nodes)]\<rparr>)"
    using assms(5) by (intro rerank_stored) simp_all
  have y: "synthesize sv
      \<lparr>store = [''query'' \<mapsto> ?q],
       stdout = [QueryLine ?q, RetrievedLine (length nodes),
                 ValueLine ?q, RerankedLine (length new_nodes)]\<rparr> new_nodes =
      Inr (Some (StopEvent (PObj resp)),
      \<lparr>store = [''query'' \<mapsto> ?q],
       stdout = [QueryLine ?q, RetrievedLine (length nodes),
                 ValueLine ?q, RerankedLine (length new_nodes)]\<rparr>)"
    using assms(6) by (intro synthesize_stored) simp_all
  show ?thesis
    using k y by (simp add: run_def start_def RAG_simps drive_terminal i r)
qed

lemma run_retrieved_two_rounds:
  assumes "\<not> truthy (ev_get p ''dirname'')"
    and "truthy (ev_get p ''query'')"
    and "ev_get p ''index'' = PObj i"
    and "aretrieve sv i (ev_get p ''query'') = Inr nodes"
  shows "trace (run (Suc (Suc 0)) (RAGWorkflow sv) p) =
       [\<lparr>inv_step = ''ingest'', inv_event = StartEvent p, inv_state = fresh,
         inv_result = Inr None\<rparr>,
        \<lparr>inv_step = ''retrieve'', inv_event = StartEvent p, inv_state = fresh,
         inv_result = Inr (Some (RetrieverEvent nodes))\<rparr>,
        \<lparr>inv_step = ''rerank'', inv_event = RetrieverEvent nodes,
         inv_state = \<lparr>store = [''query'' \<mapsto> ev_get p ''query''],
                      stdout = [QueryLine (ev_get p ''query''), RetrievedLine (length nodes)]\<rparr>,
         inv_result =
           map_sum id fst (rerank sv
             \<lparr>store = [''query'' \<mapsto> ev_get p ''query''],
              stdout = [QueryLine (ev_get p ''query''), RetrievedLine (length nodes)]\<rparr> nodes)\<rparr>]"
proof -
  let ?q = "ev_get p ''query''"
  let ?s1 = "\<lparr>store = [''query'' \<mapsto> ?q],
              stdout = [QueryLine ?q, RetrievedLine (length nodes)]\<rparr>"
  have i: "ingest sv fresh p = Inr (None, fresh)"
    using assms(1) by (rule ingest_none)
  have r: "retrieve sv fresh p = Inr (Some (RetrieverEvent nodes), ?s1)"
    using retrieve_nodes [OF assms(2,3,4), of fresh] by (simp add: fresh_def)
  have d: "dispatch (RAGWorkflow sv) (start p) =
      \<lparr>status = Running, queue = [RetrieverEvent nodes], ctx = ?s1,
       trace = [\<lparr>inv_step = ''ingest'', inv_event = StartEvent p, inv_state = fresh,
                 inv_result = Inr None\<rparr>,
                \<lparr>inv_step = ''retrieve'', inv_event = StartEvent p, inv_state = fresh,
                 inv_result = Inr (Some (RetrieverEvent nodes))\<rparr>]\<rparr>"
    by (simp add: start_def RAG_simps i r)
  have "run (Suc (Suc 0)) (RAGWorkflow sv) p =
      drive (Suc 0) (RAGWorkflow sv) (dispatch (RAGWorkflow sv) (start p))"
    unfolding run_def by (rule drive_running) (simp add: start_def)
  then have "run (Suc (Suc 0)) (RAGWorkflow sv) p =
      invoke_all [rerank_step sv] (RetrieverEvent nodes)
        \<lparr>status = Running, queue = [], ctx = ?s1,
         trace = [\<lparr>inv_step = ''ingest'', inv_event = StartEvent p, inv_state = fresh,
                   inv_result = Inr None\<rparr>,
                  \<lparr>inv_step = ''retrieve'', inv_event = StartEvent p, inv_state = fresh,
                   inv_result = Inr (Some (RetrieverEvent nodes))\<rparr>]\<rparr>"
    unfolding d by (simp add: dispatch_def matching_RAG)
  then show ?thesis
    by (simp only: invoke_single_trace) (simp add: logged_def step_names step_bodies)
qed

lemma ingest_kinds:
  "ingest sv s p = Inr (out, s') \<Longrightarrow> out = None \<or> (\<exists>r. out = Some (StopEvent r))"
  by (auto simp: ingest_def Let_def split: if_splits sum.splits)

lemma retrieve_kinds:
  "retrieve sv s p = Inr (out, s') \<Longrightarrow> out = None \<or> (\<exists>ns. out = Some (RetrieverEvent ns))"
  by (auto simp: retrieve_def Let_def split: if_splits sum.splits pyval.splits)

lemma rerank_kinds:
  "rerank sv s ns = Inr (out, s') \<Longrightarrow> \<exists>ns'. out = Some (RerankEvent ns')"
  by (auto simp: rerank_def Let_def split: sum.splits)

lemma synthesize_kinds:
  "synthesize sv s ns = Inr (out, s') \<Longrightarrow> \<exists>r. out = Some (StopEvent r)"
  by (auto simp: synthesize_def split: sum.splits)

lemma RAG_steps_conform:
  assumes "st \<in> set (RAGWorkflow sv)" and "accepts st = kind_of ev"
    and "body st s ev = Inr (out, s')"
  shows "map_option kind_of out \<in> set (produces st)"
proof -
  consider "st = ingest_step sv" | "st = retrieve_step sv" | "st = rerank_step sv"
    | "st = synthesize_step sv"
    using assms(1) by (auto simp: RAGWorkflow_def)
  then show ?thesis
  proof cases
    case 1
    then obtain p where "ev = StartEvent p" using assms(2) by (cases ev) (simp_all add: ingest_step_def)
    then show ?thesis using 1 assms(3) ingest_kinds [of sv s p out s']
      by (auto simp: ingest_step_def)
  next
    case 2
    then obtain p where "ev = StartEvent p" using assms(2) by (cases ev) (simp_all add: retrieve_step_def)
    then show ?thesis using 2 assms(3) retrieve_kinds [of sv s p out s']
      by (auto simp: retrieve_step_def)
  next
    case 3
    then obtain ns where "ev = RetrieverEvent ns" using assms(2) by (cases ev) (simp_all add: rerank_step_def)
    then show ?thesis using 3 assms(3) rerank_kinds [of sv s ns out s']
      by (auto simp: rerank_step_def)
  next
    case 4
    then obtain ns where "ev = RerankEvent ns" using assms(2) by (cases ev) (simp_all add: synthesize_step_def)
    then show ?thesis using 4 assms(3) synthesize_kinds [of sv s ns out s']
      by (auto simp: synthesize_step_def)
  qed
qed

lemma run_retrieve_fail:
  assumes "ingest sv fresh p = Inr (None, fresh)" and "retrieve sv fresh p = Inl e"
  shows "run (Suc n) (RAGWorkflow sv) p =
    \<lparr>status = Failed (StepExecutionError ''retrieve'' e), queue = [], ctx = fresh,
     trace = [\<lparr>inv_step = ''ingest'', inv_event = StartEvent p, inv_state = fresh,
               inv_result = Inr None\<rparr>,
              \<lparr>inv_step = ''retrieve'', inv_event = StartEvent p, inv_state = fresh,
               inv_result = Inl e\<rparr>]\<rparr>"
  using assms by (simp add: run_def start_def RAG_simps drive_terminal)

lemma retrieve_not_an_object:
  assumes "truthy (ev_get p ''query'')" and "ev_get p ''index'' \<noteq> PNone"
    and "\<forall>i. ev_get p ''index'' \<noteq> PObj i"
  shows "retrieve sv s p = Inl AttributeError"
  using assms by (cases "ev_get p ''index''") (simp_all add: retrieve_def Let_def)

lemma run_retrieved:
  assumes i: "ingest sv fresh p = Inr (None, fresh)"
    and r: "retrieve sv fresh p = Inr (Some (RetrieverEvent nodes), s1)"
  shows "run (Suc 0) (RAGWorkflow sv) p =
      \<lparr>status = Running, queue = [RetrieverEvent nodes], ctx = s1,
       trace = [\<lparr>inv_step = ''ingest'', inv_event = StartEvent p, inv_state = fresh,
                 inv_result = Inr None\<rparr>,
                \<lparr>inv_step = ''retrieve'', inv_event = StartEvent p, inv_state = fresh,
                 inv_result = Inr (Some (RetrieverEvent nodes))\<rparr>]\<rparr>"
  by (simp add: run_def start_def RAG_simps i r)

lemma run_rerank_fail:
  assumes i: "ingest sv fresh p = Inr (None, fresh)"
    and r: "retrieve sv fresh p = Inr (Some (RetrieverEvent nodes), s1)"
    and k: "rerank sv s1 nodes = Inl e"
  shows "run (Suc (Suc n)) (RAGWorkflow sv) p =
      \<lparr>status = Failed (StepExecutionError ''rerank'' e), queue = [], ctx = s1,
       trace = [\<lparr>inv_step = ''ingest'', inv_event = StartEvent p, inv_state = fresh,
                 inv_result = Inr None\<rparr>,
                \<lparr>inv_step = ''retrieve'', inv_event = StartEvent p, inv_state = fresh,
                 inv_result = Inr (Some (RetrieverEvent nodes))\<rparr>,
                \<lparr>inv_step = ''rerank'', inv_event = RetrieverEvent nodes, inv_state = s1,
                 inv_result = Inl e\<rparr>]\<rparr>"
  by (simp add: run_def start_def RAG_simps drive_terminal i r k)

lemma run_reranked:
  assumes i: "ingest sv fresh p = Inr (None, fresh)"
    and r: "retrieve sv fresh p = Inr (Some (RetrieverEvent nodes), s1)"
    and k: "rerank sv s1 nodes = Inr (Some (RerankEvent new_nodes), s2)"
  shows "run (Suc (Suc 0)) (RAGWorkflow sv) p =
      \<lparr>status = Running, queue = [RerankEvent new_nodes], ctx = s2,
       trace = [\<lparr>inv_step = ''ingest'', inv_event = StartEvent p, inv_state = fresh,
                 inv_result = Inr None\<rparr>,
                \<lparr>inv_step = ''retrieve'', inv_event = StartEvent p, inv_state = fresh,
                 inv_result = Inr (Some (RetrieverEvent nodes))\<rparr>,
                \<lparr>inv_step = ''rerank'', inv_event = RetrieverEvent nodes, inv_state = s1,
                 inv_result = Inr (Some (RerankEvent new_nodes))\<rparr>]\<rparr>"
  by (simp add: run_def start_def RAG_simps i r k)

lemma run_synthesize_fail:
  assumes i: "ingest sv fresh p = Inr (None, fresh)"
    and r: "retrieve sv fresh p = Inr (Some (RetrieverEvent nodes), s1)"
    and k: "rerank sv s1 nodes = Inr (Some (RerankEvent new_nodes), s2)"
    and y: "synthesize sv s2 new_nodes = Inl e"
  shows "run (Suc (Suc (Suc n))) (RAGWorkflow sv) p =
      \<lparr>status = Failed (StepExecutionError ''synthesize'' e), queue = [], ctx = s2,
       trace = [\<lparr>inv_step = ''ingest'', inv_event = StartEvent p, inv_state = fresh,
                 inv_result = Inr None\<rparr>,
                \<lparr>inv_step = ''retrieve'', inv_event = StartEvent p, inv_state = fresh,
                 inv_result = Inr (Some (RetrieverEvent nodes))\<rparr>,
                \<lparr>inv_step = ''rerank'', inv_event = RetrieverEvent nodes, inv_state = s1,
                 inv_result = Inr (Some (RerankEvent new_nodes))\<rparr>,
                \<lparr>inv_step = ''synthesize'', inv_event = RerankEvent new_nodes, inv_state = s2,
                 inv_result = Inl e\<rparr>]\<rparr>"
  by (simp add: run_def start_def RAG_simps drive_terminal i r k y)

lemma run_synthesized:
  assumes i: "ingest sv fresh p = Inr (None, fresh)"
    and r: "retrieve sv fresh p = Inr (Some (RetrieverEvent nodes), s1)"
    and k: "rerank sv s1 nodes = Inr (Some (RerankEvent new_nodes), s2)"
    and y: "synthesize sv s2 new_nodes = Inr (Some (StopEvent res), s3)"
  shows "run (Suc (Suc (Suc n))) (RAGWorkflow sv) p =
      \<lparr>status = Completed res, queue = [], ctx = s3,
       trace = [\<lparr>inv_step = ''ingest'', inv_event = StartEvent p, inv_state = fresh,
                 inv_result = Inr None\<rparr>,
                \<lparr>inv_step = ''retrieve'', inv_event = StartEvent p, inv_state = fresh,
                 inv_result = Inr (Some (RetrieverEvent nodes))\<rparr>,
                \<lparr>inv_step = ''rerank'', inv_event = RetrieverEvent nodes, inv_state = s1,
                 inv_result = Inr (Some (RerankEvent new_nodes))\<rparr>,
                \<lparr>inv_step = ''synthesize'', inv_event = RerankEvent new_nodes, inv_state = s2,
                 inv_result = Inr (Some (StopEvent res))\<rparr>]\<rparr>"
  by (simp add: run_def start_def RAG_simps drive_terminal i r k y)


lemma rerank_invocations:
  assumes i: "ingest sv fresh p = Inr (None, fresh)"
    and r: "retrieve sv fresh p = Inr (Some (RetrieverEvent nodes), s1)"
  shows "\<forall>x \<in> set (trace (run n (RAGWorkflow sv) p)).
    inv_step x = ''rerank'' \<longrightarrow> inv_event x = RetrieverEvent nodes \<and> inv_state x = s1"
proof (cases n)
  case 0
  then show ?thesis by (simp add: run_def start_def)
next
  case n: (Suc a)
  show ?thesis
  proof (cases a)
    case 0
    then show ?thesis using n by (simp add: run_retrieved [OF i r])
  next
    case a: (Suc b)
    show ?thesis
    proof (cases "rerank sv s1 nodes")
      case (Inl e)
      then show ?thesis using n a by (simp add: run_rerank_fail [OF i r])
    next
      case (Inr res)
      obtain out s2 where res: "res = (out, s2)" by (cases res)
      obtain new_nodes where k: "rerank sv s1 nodes = Inr (Some (RerankEvent new_nodes), s2)"
        using Inr res rerank_kinds [of sv s1 nodes out s2] by auto
      show ?thesis
      proof (cases b)
        case 0
        then show ?thesis using n a by (simp add: run_reranked [OF i r k])
      next
        case b: (Suc c)
        show ?thesis
        proof (cases "synthesize sv s2 new_nodes")
          case (Inl e)
          then show ?thesis using n a b by (simp add: run_synthesize_fail [OF i r k])
        next
          case (Inr res')
          obtain out' s3 where res': "res' = (out', s3)" by (cases res')
          obtain v where y: "synthesize sv s2 new_nodes = Inr (Some (StopEvent v), s3)"
            using Inr res' synthesize_kinds [of sv s2 new_nodes out' s3] by auto
          show ?thesis using n a b by (simp add: run_synthesized [OF i r k y])
        qed
      qed
    qed
  qed
qed

section \<open>The two runs of the notebook\<close>

lemma ingest_kwargs_fields:
  "ev_get ingest_kwargs ''dirname'' = PStr ''data''"
  "ev_get ingest_kwargs ''query'' = PNone"
  by (simp_all add: ingest_kwargs_def ev_get_def)

lemma query_kwargs_fields:
  "ev_get query_kwargs ''dirname'' = PNone"
  "ev_get query_kwargs ''query'' = PStr ''How was Llama2 trained?''"
  "ev_get query_kwargs ''index'' = PObj 1"
  by (simp_all add: query_kwargs_def ev_get_def)

lemma demo_services_results:
  "load_data demo_services (PStr name) = Inr [name]"
  "from_documents demo_services docs = Inr (length docs)"
  "aretrieve demo_services i q = Inr [''chunk a'', ''chunk b'']"
  "postprocess_nodes demo_services nodes q = Inr (rev nodes)"
  "asynthesize demo_services q nodes = Inr (length nodes)"
  by (simp_all add: demo_services_def)

lemmas demo_simps = ingest_kwargs_fields query_kwargs_fields demo_services_results

lemma demo_query_run:
  "run (Suc (Suc (Suc n))) (RAGWorkflow demo_services) query_kwargs =
    \<lparr>status = Completed (PObj 2), queue = [],
     ctx = \<lparr>store = [''query'' \<mapsto> PStr ''How was Llama2 trained?''],
            stdout = [QueryLine (PStr ''How was Llama2 trained?''), RetrievedLine 2,
                      ValueLine (PStr ''How was Llama2 trained?''), RerankedLine 2]\<rparr>,
     trace =
       [\<lparr>inv_step = ''ingest'', inv_event = StartEvent query_kwargs, inv_state = fresh,
         inv_result = Inr None\<rparr>,
        \<lparr>inv_step = ''retrieve'', inv_event = StartEvent query_kwargs, inv_state = fresh,
         inv_result = Inr (Some (RetrieverEvent [''chunk a'', ''chunk b'']))\<rparr>,
        \<lparr>inv_step = ''rerank'', inv_event = RetrieverEvent [''chunk a'', ''chunk b''],
         inv_state = \<lparr>store = [''query'' \<mapsto> PStr ''How was Llama2 trained?''],
                      stdout = [QueryLine (PStr ''How was Llama2 trained?''), RetrievedLine 2]\<rparr>,
         inv_result = Inr (Some (RerankEvent [''chunk b'', ''chunk a'']))\<rparr>,
        \<lparr>inv_step = ''synthesize'', inv_event = RerankEvent [''chunk b'', ''chunk a''],
         inv_state = \<lparr>store = [''query'' \<mapsto> PStr ''How was Llama2 trained?''],
                      stdout = [QueryLine (PStr ''How was Llama2 trained?''), RetrievedLine 2,
                                ValueLine (PStr ''How was Llama2 trained?''), RerankedLine 2]\<rparr>,
         inv_result = Inr (Some (StopEvent (PObj 2)))\<rparr>]\<rparr>"
  using run_query [of query_kwargs 1 demo_services "[''chunk a'', ''chunk b'']"
      "[''chunk b'', ''chunk a'']" 2 n]
  by (simp add: demo_simps)

section \<open>The claims about runs\<close>

text \<open>
  C1. The two entry steps are keyed on the fields \<^verbatim>\<open>dirname\<close> and \<^verbatim>\<open>query\<close>. A run
  whose payload has a (truthy) \<^verbatim>\<open>dirname\<close> and no \<^verbatim>\<open>query\<close>, the loader and the index
  builder succeeding, gets an event from \<open>ingest\<close> alone (\<open>retrieve\<close> returns no event and
  leaves the state as it is) and completes with the built index. A run whose payload has
  a (truthy) \<^verbatim>\<open>query\<close>, an index and no \<^verbatim>\<open>dirname\<close>, the retriever succeeding, gets no
  event from \<open>ingest\<close> and a \<^verbatim>\<open>RetrieverEvent\<close> from \<open>retrieve\<close>, which the engine hands
  to \<open>rerank\<close> in the next round.
\<close>

theorem entry_points_self_select:
  "(truthy (ev_get p ''dirname'') \<and> \<not> truthy (ev_get p ''query'') \<and>
    load_data sv (ev_get p ''dirname'') = Inr docs \<and> from_documents sv docs = Inr idx \<longrightarrow>
      ingest sv s p = Inr (Some (StopEvent (PObj idx)), s) \<and>
      retrieve sv s p = Inr (None, s) \<and>
      status (run (Suc n) (RAGWorkflow sv) p) = Completed (PObj idx) \<and>
      map (\<lambda>x. (inv_step x, inv_result x)) (trace (run (Suc n) (RAGWorkflow sv) p)) =
        [(''ingest'', Inr (Some (StopEvent (PObj idx))))]) \<and>
   (\<not> truthy (ev_get p ''dirname'') \<and> truthy (ev_get p ''query'') \<and>
    ev_get p ''index'' = PObj i \<and> aretrieve sv i (ev_get p ''query'') = Inr nodes \<longrightarrow>
      ingest sv s p = Inr (None, s) \<and>
      retrieve sv s p =
        Inr (Some (RetrieverEvent nodes),
             \<lparr>store = (store s)(''query'' \<mapsto> ev_get p ''query''),
              stdout = stdout s @ [QueryLine (ev_get p ''query''),
                                   RetrievedLine (length nodes)]\<rparr>) \<and>
      map (\<lambda>x. (inv_step x, inv_event x))
          (take 3 (trace (run (Suc (Suc n)) (RAGWorkflow sv) p))) =
        [(''ingest'', StartEvent p), (''retrieve'', StartEvent p),
         (''rerank'', RetrieverEvent nodes)] \<and>
      map inv_result (take 2 (trace (run (Suc (Suc n)) (RAGWorkflow sv) p))) =
        [Inr None, Inr (Some (RetrieverEvent nodes))])"
proof (intro conjI impI)
  assume a: "truthy (ev_get p ''dirname'') \<and> \<not> truthy (ev_get p ''query'') \<and>
    load_data sv (ev_get p ''dirname'') = Inr docs \<and> from_documents sv docs = Inr idx"
  then show "retrieve sv s p = Inr (None, s)" by (simp add: retrieve_none)
  show "ingest sv s p = Inr (Some (StopEvent (PObj idx)), s)"
    using a ingest_stop [of p sv docs idx s] by simp
  have "ingest sv fresh p = Inr (Some (StopEvent (PObj idx)), fresh)"
    using a ingest_stop [of p sv docs idx fresh] by simp
  note run = run_ingest_stop [OF this, of n]
  show "status (run (Suc n) (RAGWorkflow sv) p) = Completed (PObj idx)"
    by (simp add: run)
  show "map (\<lambda>x. (inv_step x, inv_result x)) (trace (run (Suc n) (RAGWorkflow sv) p)) =
      [(''ingest'', Inr (Some (StopEvent (PObj idx))))]"
    by (simp add: run)
next
  assume a: "\<not> truthy (ev_get p ''dirname'') \<and> truthy (ev_get p ''query'') \<and>
    ev_get p ''index'' = PObj i \<and> aretrieve sv i (ev_get p ''query'') = Inr nodes"
  then show "ingest sv s p = Inr (None, s)" by (simp add: ingest_none)
  show "retrieve sv s p =
      Inr (Some (RetrieverEvent nodes),
           \<lparr>store = (store s)(''query'' \<mapsto> ev_get p ''query''),
            stdout = stdout s @ [QueryLine (ev_get p ''query''),
                                 RetrievedLine (length nodes)]\<rparr>)"
    using a retrieve_nodes [of p i sv nodes s] by simp
  have two: "trace (run (Suc (Suc 0)) (RAGWorkflow sv) p) =
       [\<lparr>inv_step = ''ingest'', inv_event = StartEvent p, inv_state = fresh,
         inv_result = Inr None\<rparr>,
        \<lparr>inv_step = ''retrieve'', inv_event = StartEvent p, inv_state = fresh,
         inv_result = Inr (Some (RetrieverEvent nodes))\<rparr>,
        \<lparr>inv_step = ''rerank'', inv_event = RetrieverEvent nodes,
         inv_state = \<lparr>store = [''query'' \<mapsto> ev_get p ''query''],
                      stdout = [QueryLine (ev_get p ''query''), RetrievedLine (length nodes)]\<rparr>,
         inv_result =
           map_sum id fst (rerank sv
             \<lparr>store = [''query'' \<mapsto> ev_get p ''query''],
              stdout = [QueryLine (ev_get p ''query''), RetrievedLine (length nodes)]\<rparr> nodes)\<rparr>]"
    using a run_retrieved_two_rounds [of p i sv nodes] by simp
  have pre: "take 3 (trace (run (Suc (Suc n)) (RAGWorkflow sv) p)) =
      trace (run (Suc (Suc 0)) (RAGWorkflow sv) p)"
    using run_trace_prefix [of "Suc (Suc 0)" "RAGWorkflow sv" p n]
    by (simp add: two numeral_3_eq_3)
  show "map (\<lambda>x. (inv_step x, inv_event x))
          (take 3 (trace (run (Suc (Suc n)) (RAGWorkflow sv) p))) =
        [(''ingest'', StartEvent p), (''retrieve'', StartEvent p),
         (''rerank'', RetrieverEvent nodes)]"
    by (simp only: pre two) simp
  have "take 2 (trace (run (Suc (Suc n)) (RAGWorkflow sv) p)) =
      take 2 (take 3 (trace (run (Suc (Suc n)) (RAGWorkflow sv) p)))"
    by simp
  then show "map inv_result (take 2 (trace (run (Suc (Suc n)) (RAGWorkflow sv) p))) =
      [Inr None, Inr (Some (RetrieverEvent nodes))]"
    by (simp only: pre two) simp
qed

theorem entry_points_self_select_witness:
  "ingest demo_services fresh ingest_kwargs = Inr (Some (StopEvent (PObj 1)), fresh) \<and>
   retrieve demo_services fresh ingest_kwargs = Inr (None, fresh) \<and>
   status (run (Suc 0) (RAGWorkflow demo_services) ingest_kwargs) = Completed (PObj 1) \<and>
   map (\<lambda>x. (inv_step x, inv_result x))
       (trace (run (Suc 0) (RAGWorkflow demo_services) ingest_kwargs)) =
     [(''ingest'', Inr (Some (StopEvent (PObj 1))))] \<and>
   ingest demo_services fresh query_kwargs = Inr (None, fresh) \<and>
   map (\<lambda>x. (inv_step x, inv_event x))
       (take 3 (trace (run (Suc (Suc 0)) (RAGWorkflow demo_services) query_kwargs))) =
     [(''ingest'', StartEvent query_kwargs), (''retrieve'', StartEvent query_kwargs),
      (''rerank'', RetrieverEvent [''chunk a'', ''chunk b''])] \<and>
   map inv_result (take 2 (trace (run (Suc (Suc 0)) (RAGWorkflow demo_services) query_kwargs))) =
     [Inr None, Inr (Some (RetrieverEvent [''chunk a'', ''chunk b'']))]"
  using entry_points_self_select [where p = ingest_kwargs and sv = demo_services
      and docs = "[''data'']" and idx = 1 and s = fresh and n = 0]
    entry_points_self_select [where p = query_kwargs and sv = demo_services
      and i = 1 and nodes = "[''chunk a'', ''chunk b'']" and s = fresh and n = 0]
  by (simp add: demo_simps)

text \<open>
  C2, as amended. In a run invoked with a truthy query and an index that is an object of
  the library, and no \<^verbatim>\<open>dirname\<close>, the retriever succeeding: after any number of
  rounds, every invocation of \<open>rerank\<close> is on the retrieved nodes and starts in a state
  whose store holds the query of the run under the key \<^verbatim>\<open>"query"\<close> (so
  \<^verbatim>\<open>ctx.store.get("query", default=None)\<close> gives it), and from the second round on
  \<open>rerank\<close> has been invoked, whether or not the reranker then succeeds. When the reranker
  and the synthesizer succeed too, the run is completed from the third round on with the
  response that the synthesizer returned for that query and the reranked nodes. Nothing
  is said of what the response yields: the notebook hands it on as it is.
\<close>

theorem query_run_with_index:
  assumes "\<not> truthy (ev_get p ''dirname'')"
    and "truthy (ev_get p ''query'')"
    and "ev_get p ''index'' = PObj i"
    and "aretrieve sv i (ev_get p ''query'') = Inr nodes"
  shows "(\<forall>x \<in> set (trace (run n (RAGWorkflow sv) p)).
       inv_step x = ''rerank'' \<longrightarrow>
         inv_event x = RetrieverEvent nodes \<and>
         store (inv_state x) ''query'' = Some (ev_get p ''query'') \<and>
         ctx_get ''query'' (Some PNone) (store (inv_state x)) = Inr (ev_get p ''query'')) \<and>
    (\<exists>x \<in> set (trace (run (Suc (Suc m)) (RAGWorkflow sv) p)). inv_step x = ''rerank'') \<and>
    (postprocess_nodes sv nodes (ev_get p ''query'') = Inr new_nodes \<and>
     asynthesize sv (ev_get p ''query'') new_nodes = Inr resp \<longrightarrow>
       status (run (Suc (Suc (Suc k))) (RAGWorkflow sv) p) = Completed (PObj resp) \<and>
       (\<exists>x \<in> set (trace (run (Suc (Suc (Suc k))) (RAGWorkflow sv) p)).
          inv_step x = ''rerank'' \<and> inv_result x = Inr (Some (RerankEvent new_nodes))) \<and>
       (\<exists>x \<in> set (trace (run (Suc (Suc (Suc k))) (RAGWorkflow sv) p)).
          inv_step x = ''synthesize'' \<and> inv_event x = RerankEvent new_nodes \<and>
          inv_result x = Inr (Some (StopEvent (PObj resp)))))"
proof (intro conjI impI)
  let ?q = "ev_get p ''query''"
  let ?s1 = "\<lparr>store = [''query'' \<mapsto> ?q],
              stdout = [QueryLine ?q, RetrievedLine (length nodes)]\<rparr>"
  have i: "ingest sv fresh p = Inr (None, fresh)"
    using assms(1) by (rule ingest_none)
  have r: "retrieve sv fresh p = Inr (Some (RetrieverEvent nodes), ?s1)"
    using retrieve_nodes [OF assms(2,3,4), of fresh] by (simp add: fresh_def)
  show "\<forall>x \<in> set (trace (run n (RAGWorkflow sv) p)).
       inv_step x = ''rerank'' \<longrightarrow>
         inv_event x = RetrieverEvent nodes \<and>
         store (inv_state x) ''query'' = Some ?q \<and>
         ctx_get ''query'' (Some PNone) (store (inv_state x)) = Inr ?q"
    using rerank_invocations [OF i r, of n] by (auto simp: ctx_get_def)
  have two: "trace (run (Suc (Suc 0)) (RAGWorkflow sv) p) =
       [\<lparr>inv_step = ''ingest'', inv_event = StartEvent p, inv_state = fresh,
         inv_result = Inr None\<rparr>,
        \<lparr>inv_step = ''retrieve'', inv_event = StartEvent p, inv_state = fresh,
         inv_result = Inr (Some (RetrieverEvent nodes))\<rparr>,
        \<lparr>inv_step = ''rerank'', inv_event = RetrieverEvent nodes, inv_state = ?s1,
         inv_result = map_sum id fst (rerank sv ?s1 nodes)\<rparr>]"
    using assms by (rule run_retrieved_two_rounds)
  have "take 3 (trace (run (Suc (Suc m)) (RAGWorkflow sv) p)) =
      trace (run (Suc (Suc 0)) (RAGWorkflow sv) p)"
    using run_trace_prefix [of "Suc (Suc 0)" "RAGWorkflow sv" p m]
    by (simp add: two numeral_3_eq_3)
  then have "\<exists>x \<in> set (take 3 (trace (run (Suc (Suc m)) (RAGWorkflow sv) p))).
      inv_step x = ''rerank''"
    by (simp only: two) simp
  then show "\<exists>x \<in> set (trace (run (Suc (Suc m)) (RAGWorkflow sv) p)). inv_step x = ''rerank''"
    by (blast dest: in_set_takeD)
next
  assume s: "postprocess_nodes sv nodes (ev_get p ''query'') = Inr new_nodes \<and>
     asynthesize sv (ev_get p ''query'') new_nodes = Inr resp"
  note full = run_query [OF assms conjunct1 [OF s] conjunct2 [OF s], of k]
  show "status (run (Suc (Suc (Suc k))) (RAGWorkflow sv) p) = Completed (PObj resp)"
    unfolding full by simp
  show "\<exists>x \<in> set (trace (run (Suc (Suc (Suc k))) (RAGWorkflow sv) p)).
          inv_step x = ''rerank'' \<and> inv_result x = Inr (Some (RerankEvent new_nodes))"
    unfolding full by simp
  show "\<exists>x \<in> set (trace (run (Suc (Suc (Suc k))) (RAGWorkflow sv) p)).
          inv_step x = ''synthesize'' \<and> inv_event x = RerankEvent new_nodes \<and>
          inv_result x = Inr (Some (StopEvent (PObj resp)))"
    unfolding full by simp
qed

theorem query_run_with_index_witness:
  "status (run (Suc (Suc (Suc 0))) (RAGWorkflow demo_services) query_kwargs) = Completed (PObj 2) \<and>
   map (\<lambda>x. (inv_step x, store (inv_state x) ''query''))
       (trace (run (Suc (Suc (Suc 0))) (RAGWorkflow demo_services) query_kwargs)) =
     [(''ingest'', None), (''retrieve'', None),
      (''rerank'', Some (PStr ''How was Llama2 trained?'')),
      (''synthesize'', Some (PStr ''How was Llama2 trained?''))]"
proof -
  have "status (run (Suc (Suc (Suc 0))) (RAGWorkflow demo_services) query_kwargs) =
      Completed (PObj 2)"
    using query_run_with_index [where p = query_kwargs and i = 1 and sv = demo_services
        and nodes = "[''chunk a'', ''chunk b'']" and new_nodes = "[''chunk b'', ''chunk a'']"
        and resp = 2 and k = 0]
    by (simp add: demo_simps)
  then show ?thesis by (simp add: demo_query_run fresh_def)
qed

text \<open>
  The claim as first stated fails twice. An index that is not \<^verbatim>\<open>None\<close> need not be an
  index: with \<^verbatim>\<open>index="idx"\<close> the guard \<^verbatim>\<open>if index is None\<close> lets the value through,
  \<^verbatim>\<open>index.as_retriever\<close> raises, the run fails in \<open>retrieve\<close> and \<open>rerank\<close> is never
  invoked. And with an index and services that all succeed, the run is completed with
  whatever the synthesizer returned, here a response that yields no fragment.
\<close>

theorem query_run_counterexample:
  "status (run (Suc (Suc (Suc 0))) (RAGWorkflow demo_services)
      [''query'' \<mapsto> PStr ''How was Llama2 trained?'', ''index'' \<mapsto> PStr ''idx'']) =
     Failed (StepExecutionError ''retrieve'' AttributeError) \<and>
   map inv_step (trace (run (Suc (Suc (Suc 0))) (RAGWorkflow demo_services)
      [''query'' \<mapsto> PStr ''How was Llama2 trained?'', ''index'' \<mapsto> PStr ''idx''])) =
     [''ingest'', ''retrieve''] \<and>
   status (run (Suc (Suc (Suc 0))) (RAGWorkflow quiet_services)
      [''query'' \<mapsto> PStr ''How was Llama2 trained?'',
       ''index'' \<mapsto> PObj (VectorStoreIndex [''llama2.pdf''])]) =
     Completed (PObj (StreamingResponse [])) \<and>
   async_response_gen (PObj (StreamingResponse [])) = Inr []"
proof -
  let ?bad = "[''query'' \<mapsto> PStr ''How was Llama2 trained?'', ''index'' \<mapsto> PStr ''idx'']
    :: nat payload"
  let ?ok = "[''query'' \<mapsto> PStr ''How was Llama2 trained?'',
       ''index'' \<mapsto> PObj (VectorStoreIndex [''llama2.pdf''])]"
  have "ingest demo_services fresh ?bad = Inr (None, fresh)"
    by (rule ingest_none) (simp add: ev_get_def)
  moreover have "retrieve demo_services fresh ?bad = Inl AttributeError"
    by (rule retrieve_not_an_object) (simp_all add: ev_get_def)
  ultimately have bad: "run (Suc (Suc (Suc 0))) (RAGWorkflow demo_services) ?bad =
    \<lparr>status = Failed (StepExecutionError ''retrieve'' AttributeError), queue = [], ctx = fresh,
     trace = [\<lparr>inv_step = ''ingest'', inv_event = StartEvent ?bad, inv_state = fresh,
               inv_result = Inr None\<rparr>,
              \<lparr>inv_step = ''retrieve'', inv_event = StartEvent ?bad, inv_state = fresh,
               inv_result = Inl AttributeError\<rparr>]\<rparr>"
    by (rule run_retrieve_fail)
  have ok: "status (run (Suc (Suc (Suc 0))) (RAGWorkflow quiet_services) ?ok) =
      Completed (PObj (StreamingResponse []))"
    using run_query [of ?ok "VectorStoreIndex [''llama2.pdf'']" quiet_services
        "[''llama2.pdf'']" "[''llama2.pdf'']" "StreamingResponse []" 0]
    by (simp add: ev_get_def quiet_services_def)
  show ?thesis
    unfolding bad using ok by (simp add: async_response_gen_def)
qed

text \<open>
  C4. When neither entry field is present (or each is falsy), both entry steps return no
  event, the queue is empty after the first round, and the run fails with
  \<^verbatim>\<open>NoTerminationError\<close> in the second, whatever the services are.
\<close>

theorem no_field_no_termination:
  assumes "\<not> truthy (ev_get p ''dirname'')" and "\<not> truthy (ev_get p ''query'')"
  shows "status (run (Suc (Suc n)) (RAGWorkflow sv) p) = Failed NoTerminationError \<and>
    queue (run (Suc (Suc n)) (RAGWorkflow sv) p) = [] \<and>
    map (\<lambda>x. (inv_step x, inv_result x)) (trace (run (Suc (Suc n)) (RAGWorkflow sv) p)) =
      [(''ingest'', Inr None), (''retrieve'', Inr None)]"
proof -
  have "ingest sv fresh p = Inr (None, fresh)" using assms(1) by (rule ingest_none)
  moreover have "retrieve sv fresh p = Inr (None, fresh)" using assms(2) by (rule retrieve_none)
  ultimately show ?thesis by (simp add: run_entry_none(2))
qed

theorem no_field_no_termination_witness:
  "status (run (Suc (Suc 0)) (RAGWorkflow demo_services) [''index'' \<mapsto> PObj 1]) =
     Failed NoTerminationError \<and>
   map (\<lambda>x. (inv_step x, inv_result x))
       (trace (run (Suc (Suc 0)) (RAGWorkflow demo_services) [''index'' \<mapsto> PObj 1])) =
     [(''ingest'', Inr None), (''retrieve'', Inr None)]"
  using no_field_no_termination [of "[''index'' \<mapsto> PObj 1]" 0 demo_services]
  by (simp add: ev_get_def)

text \<open>
  C7. In every run, of any workflow and after any number of rounds: an invocation that
  stopped is the last one the engine made, and the run is completed with the payload of
  that Stop event; a completed run stays as it is however many more rounds it is given,
  so nothing is dispatched after the Stop event.
\<close>

theorem stop_ends_run:
  "(i < length (trace (run n steps p)) \<and> stops (trace (run n steps p) ! i) r \<longrightarrow>
      status (run n steps p) = Completed r \<and> Suc i = length (trace (run n steps p))) \<and>
   (status (run n steps p) = Completed r' \<longrightarrow>
      stops (last (trace (run n steps p))) r' \<and> run (n + m) steps p = run n steps p)"
proof (intro conjI impI)
  assume "i < length (trace (run n steps p)) \<and> stops (trace (run n steps p) ! i) r"
  then show "status (run n steps p) = Completed r" "Suc i = length (trace (run n steps p))"
    using stop_inv_position [OF run_stop_inv] by blast+
next
  assume c: "status (run n steps p) = Completed r'"
  show "stops (last (trace (run n steps p))) r'"
    using run_stop_inv [of n steps p] c by (simp add: stop_inv_def)
  show "run (n + m) steps p = run n steps p"
    using c by (simp add: run_def drive_add drive_terminal)
qed

theorem stop_ends_run_witness:
  "stops (trace (run (Suc (Suc (Suc 0))) (RAGWorkflow demo_services) query_kwargs) ! 3) (PObj 2) \<and>
   status (run (Suc (Suc (Suc 0))) (RAGWorkflow demo_services) query_kwargs) = Completed (PObj 2) \<and>
   length (trace (run (Suc (Suc (Suc 0))) (RAGWorkflow demo_services) query_kwargs)) = 4 \<and>
   run (Suc (Suc (Suc 0)) + 5) (RAGWorkflow demo_services) query_kwargs =
     run (Suc (Suc (Suc 0))) (RAGWorkflow demo_services) query_kwargs"
proof -
  have h: "3 < length (trace (run (Suc (Suc (Suc 0))) (RAGWorkflow demo_services) query_kwargs)) \<and>
      stops (trace (run (Suc (Suc (Suc 0))) (RAGWorkflow demo_services) query_kwargs) ! 3) (PObj 2)"
    by (simp add: demo_query_run stops_def)
  have c: "status (run (Suc (Suc (Suc 0))) (RAGWorkflow demo_services) query_kwargs) =
      Completed (PObj 2)"
    by (simp add: demo_query_run)
  show ?thesis
    using h c
      stop_ends_run [of 3 "Suc (Suc (Suc 0))" "RAGWorkflow demo_services" query_kwargs
        "PObj 2" "PObj 2" 5]
    by simp
qed

text \<open>
  C8. What a step returns is of a kind its return annotation declares: \<open>ingest\<close> returns
  a \<^verbatim>\<open>StopEvent\<close> or no event, \<open>retrieve\<close> a \<^verbatim>\<open>RetrieverEvent\<close> or no event, \<open>rerank\<close> a
  \<^verbatim>\<open>RerankEvent\<close>, \<open>synthesize\<close> a \<^verbatim>\<open>StopEvent\<close>, in any state and on any input. In
  every run of the workflow, after any number of rounds, each invocation that returned
  is of a declared step, on an event of the kind the step accepts, and returned a kind
  the step declares.
\<close>

theorem outputs_declared:
  "(\<forall>out s'. ingest sv s p = Inr (out, s') \<longrightarrow> out = None \<or> (\<exists>r. out = Some (StopEvent r))) \<and>
   (\<forall>out s'. retrieve sv s p = Inr (out, s') \<longrightarrow>
      out = None \<or> (\<exists>ns'. out = Some (RetrieverEvent ns'))) \<and>
   (\<forall>out s'. rerank sv s ns = Inr (out, s') \<longrightarrow> (\<exists>ns'. out = Some (RerankEvent ns'))) \<and>
   (\<forall>out s'. synthesize sv s ns = Inr (out, s') \<longrightarrow> (\<exists>r. out = Some (StopEvent r))) \<and>
   (\<forall>x \<in> set (trace (run n (RAGWorkflow sv) q)). \<forall>out. inv_result x = Inr out \<longrightarrow>
      (\<exists>st \<in> set (RAGWorkflow sv).
         step_name st = inv_step x \<and> accepts st = kind_of (inv_event x) \<and>
         map_option kind_of out \<in> set (produces st)))"
proof (intro conjI allI impI ballI)
  show "out = None \<or> (\<exists>r. out = Some (StopEvent r))"
    if "ingest sv s p = Inr (out, s')" for out s'
    using that by (rule ingest_kinds)
  show "out = None \<or> (\<exists>ns'. out = Some (RetrieverEvent ns'))"
    if "retrieve sv s p = Inr (out, s')" for out s'
    using that by (rule retrieve_kinds)
  show "\<exists>ns'. out = Some (RerankEvent ns')" if "rerank sv s ns = Inr (out, s')" for out s'
    using that by (rule rerank_kinds)
  show "\<exists>r. out = Some (StopEvent r)" if "synthesize sv s ns = Inr (out, s')" for out s'
    using that by (rule synthesize_kinds)
next
  fix x out
  assume x: "x \<in> set (trace (run n (RAGWorkflow sv) q))" and r: "inv_result x = Inr out"
  obtain st where st: "st \<in> set (RAGWorkflow sv)" and ret: "returned st x"
    using run_traced [of "RAGWorkflow sv" n q] x by (auto simp: traced_def)
  then obtain s' where "body st (inv_state x) (inv_event x) = Inr (out, s')"
    using r by (cases "body st (inv_state x) (inv_event x)") (auto simp: returned_def)
  then have "map_option kind_of out \<in> set (produces st)"
    using st ret by (intro RAG_steps_conform [of st sv "inv_event x" "inv_state x" out s'])
      (simp_all add: returned_def)
  then show "\<exists>st \<in> set (RAGWorkflow sv).
         step_name st = inv_step x \<and> accepts st = kind_of (inv_event x) \<and>
         map_option kind_of out \<in> set (produces st)"
    using st ret by (auto simp: returned_def)
qed

theorem outputs_declared_witness:
  "ingest demo_services fresh ingest_kwargs = Inr (Some (StopEvent (PObj 1)), fresh) \<and>
   map (\<lambda>x. (inv_step x, map_sum id (map_option kind_of) (inv_result x)))
       (trace (run (Suc (Suc (Suc 0))) (RAGWorkflow demo_services) query_kwargs)) =
     [(''ingest'', Inr None), (''retrieve'', Inr (Some KRetriever)),
      (''rerank'', Inr (Some KRerank)), (''synthesize'', Inr (Some KStop))] \<and>
   map (\<lambda>st. (step_name st, accepts st, produces st)) (RAGWorkflow demo_services) =
     [(''ingest'', KStart, [Some KStop, None]), (''retrieve'', KStart, [Some KRetriever, None]),
      (''rerank'', KRetriever, [Some KRerank]), (''synthesize'', KRerank, [Some KStop])]"
proof -
  have i: "ingest demo_services fresh ingest_kwargs = Inr (Some (StopEvent (PObj 1)), fresh)"
    using ingest_stop [of ingest_kwargs demo_services "[''data'']" 1 fresh]
    by (simp add: demo_simps)
  have "\<forall>out s'. ingest demo_services fresh ingest_kwargs = Inr (out, s') \<longrightarrow>
      out = None \<or> (\<exists>r. out = Some (StopEvent r))"
    using outputs_declared [of demo_services fresh ingest_kwargs] by blast
  then have "ingest demo_services fresh ingest_kwargs = Inr (Some (StopEvent (PObj 1)), fresh)"
    using i by simp
  moreover have "map (\<lambda>x. (inv_step x, map_sum id (map_option kind_of) (inv_result x)))
       (trace (run (Suc (Suc (Suc 0))) (RAGWorkflow demo_services) query_kwargs)) =
     [(''ingest'', Inr None), (''retrieve'', Inr (Some KRetriever)),
      (''rerank'', Inr (Some KRerank)), (''synthesize'', Inr (Some KStop))]"
    by (simp add: demo_query_run)
  moreover have "map (\<lambda>st. (step_name st, accepts st, produces st)) (RAGWorkflow demo_services) =
     [(''ingest'', KStart, [Some KStop, None]), (''retrieve'', KStart, [Some KRetriever, None]),
      (''rerank'', KRetriever, [Some KRerank]), (''synthesize'', KRerank, [Some KStop])]"
    by (simp add: RAGWorkflow_def ingest_step_def retrieve_step_def rerank_step_def
        synthesize_step_def)
  ultimately show ?thesis by blast
qed

text \<open>
  C9. When the payload has a truthy query and its index is \<^verbatim>\<open>None\<close> or absent,
  \<open>retrieve\<close> stores the query under the key \<^verbatim>\<open>"query"\<close>, prints its two lines and
  returns no event: it does not raise. No invocation of such a run returns a
  \<^verbatim>\<open>RetrieverEvent\<close>, after any number of rounds. When \<open>ingest\<close> does not take the run
  (no \<^verbatim>\<open>dirname\<close>), the store of the run holds the query from the first round on, and
  the run fails with \<^verbatim>\<open>NoTerminationError\<close> in the second.
\<close>

theorem query_without_index:
  assumes "truthy (ev_get p ''query'')" and "ev_get p ''index'' = PNone"
  shows "retrieve sv s p =
      Inr (None, \<lparr>store = (store s)(''query'' \<mapsto> ev_get p ''query''),
                 stdout = stdout s @ [QueryLine (ev_get p ''query''), IndexEmptyLine]\<rparr>) \<and>
    (\<forall>x \<in> set (trace (run n (RAGWorkflow sv) p)).
       \<forall>ns. inv_result x \<noteq> Inr (Some (RetrieverEvent ns))) \<and>
    (\<not> truthy (ev_get p ''dirname'') \<longrightarrow>
       store (ctx (run (Suc m) (RAGWorkflow sv) p)) ''query'' = Some (ev_get p ''query'') \<and>
       status (run (Suc (Suc m)) (RAGWorkflow sv) p) = Failed NoTerminationError)"
proof (intro conjI impI)
  show "retrieve sv s p =
      Inr (None, \<lparr>store = (store s)(''query'' \<mapsto> ev_get p ''query''),
                 stdout = stdout s @ [QueryLine (ev_get p ''query''), IndexEmptyLine]\<rparr>)"
    using assms by (rule retrieve_no_index)
  let ?s' = "\<lparr>store = [''query'' \<mapsto> ev_get p ''query''],
              stdout = [QueryLine (ev_get p ''query''), IndexEmptyLine]\<rparr>"
  have r: "retrieve sv fresh p = Inr (None, ?s')"
    using retrieve_no_index [OF assms, of sv fresh] by (simp add: fresh_def)
  show "\<forall>x \<in> set (trace (run n (RAGWorkflow sv) p)).
       \<forall>ns. inv_result x \<noteq> Inr (Some (RetrieverEvent ns))"
  proof (cases n)
    case 0
    then show ?thesis by (simp add: run_def start_def)
  next
    case (Suc k)
    consider (none) "ingest sv fresh p = Inr (None, fresh)"
      | (fail) e where "ingest sv fresh p = Inl e"
      | (stop) idx where "ingest sv fresh p = Inr (Some (StopEvent (PObj idx)), fresh)"
      using ingest_outcomes [of sv fresh p] by blast
    then show ?thesis
    proof cases
      case none
      show ?thesis
      proof (cases k)
        case 0
        then show ?thesis using Suc by (simp add: run_entry_none(1) [OF none r])
      next
        case (Suc j)
        then show ?thesis using \<open>n = Suc k\<close> by (simp add: run_entry_none(2) [OF none r])
      qed
    next
      case fail
      then show ?thesis using Suc by (simp add: run_ingest_fail)
    next
      case stop
      then show ?thesis using Suc by (simp add: run_ingest_stop)
    qed
  qed
  assume "\<not> truthy (ev_get p ''dirname'')"
  then have i: "ingest sv fresh p = Inr (None, fresh)" by (rule ingest_none)
  show "store (ctx (run (Suc m) (RAGWorkflow sv) p)) ''query'' = Some (ev_get p ''query'')"
    by (cases m) (simp_all add: run_entry_none [OF i r])
  show "status (run (Suc (Suc m)) (RAGWorkflow sv) p) = Failed NoTerminationError"
    by (simp add: run_entry_none(2) [OF i r])
qed

theorem query_without_index_witness:
  "retrieve demo_services fresh [''query'' \<mapsto> PStr ''q''] =
     Inr (None, \<lparr>store = [''query'' \<mapsto> PStr ''q''],
                stdout = [QueryLine (PStr ''q''), IndexEmptyLine]\<rparr>) \<and>
   store (ctx (run (Suc (Suc 0)) (RAGWorkflow demo_services) [''query'' \<mapsto> PStr ''q'']))
     ''query'' = Some (PStr ''q'') \<and>
   status (run (Suc (Suc 0)) (RAGWorkflow demo_services) [''query'' \<mapsto> PStr ''q'']) =
     Failed NoTerminationError"
  using query_without_index [where p = "[''query'' \<mapsto> PStr ''q'']" and sv = demo_services
      and s = fresh and n = 0 and m = 0]
    query_without_index [where p = "[''query'' \<mapsto> PStr ''q'']" and sv = demo_services
      and s = fresh and n = 0 and m = "Suc 0"]
  by (simp add: ev_get_def fresh_def)

text \<open>
  C10. When \<^verbatim>\<open>dirname\<close> is truthy and the loader and the index builder succeed,
  \<open>ingest\<close> returns a \<^verbatim>\<open>StopEvent\<close> with the built index, in any state; the run is
  completed with that index after its first round, and at no point has it failed with
  \<^verbatim>\<open>NoTerminationError\<close>.
\<close>

theorem ingest_builds_index:
  assumes "truthy (ev_get p ''dirname'')"
    and "load_data sv (ev_get p ''dirname'') = Inr docs"
    and "from_documents sv docs = Inr idx"
  shows "ingest sv s p = Inr (Some (StopEvent (PObj idx)), s) \<and>
    status (run (Suc n) (RAGWorkflow sv) p) = Completed (PObj idx) \<and>
    status (run m (RAGWorkflow sv) p) \<noteq> Failed NoTerminationError"
proof (intro conjI)
  show "ingest sv s p = Inr (Some (StopEvent (PObj idx)), s)"
    using assms by (rule ingest_stop)
  have f: "ingest sv fresh p = Inr (Some (StopEvent (PObj idx)), fresh)"
    using assms by (rule ingest_stop)
  show "status (run (Suc n) (RAGWorkflow sv) p) = Completed (PObj idx)"
    by (simp add: run_ingest_stop [OF f])
  show "status (run m (RAGWorkflow sv) p) \<noteq> Failed NoTerminationError"
  proof (cases m)
    case 0
    then show ?thesis by (simp add: run_def start_def)
  next
    case (Suc k)
    then show ?thesis by (simp add: run_ingest_stop [OF f])
  qed
qed

theorem ingest_builds_index_witness:
  "ingest demo_services fresh ingest_kwargs = Inr (Some (StopEvent (PObj 1)), fresh) \<and>
   status (run (Suc 0) (RAGWorkflow demo_services) ingest_kwargs) = Completed (PObj 1) \<and>
   status (run (Suc (Suc 0)) (RAGWorkflow demo_services) ingest_kwargs) \<noteq>
     Failed NoTerminationError"
  using ingest_builds_index [where p = ingest_kwargs and sv = demo_services
      and docs = "[''data'']" and idx = 1 and s = fresh and n = 0 and m = "Suc (Suc 0)"]
  by (simp add: demo_simps)

end
